theory Spec2Isabelle
  imports Complex_Main
begin

section \<open>Data model\<close>

text \<open>
  The toolgun application of \<^verbatim>\<open>main.py\<close> and \<^verbatim>\<open>hardware.py\<close>.
  Python exceptions are values of \<open>error\<close>; a method that mutates its object and
  talks to the audio engine, the screen or the GPIO pins returns the updated object
  together with the list of commands it sent, in the order of the source.

  Conventions of the embedding:
  \<^item> timestamps (\<^verbatim>\<open>time.time()\<close>) are real numbers; all the clock reads of
    one call are one instant \<open>now\<close>, passed in by the caller;
  \<^item> a configuration dictionary is a record whose optional keys are \<open>option\<close> fields
    (\<open>None\<close>: the key is absent);
  \<^item> an image is identified by what was drawn on it (a description panel by its text,
    the title cache by its width), a loaded wave object and a playback handle by the
    file name of the sound;
  \<^item> \<^verbatim>\<open>random.choice\<close> and \<^verbatim>\<open>playback.is_playing()\<close> are read from the
    tick's inputs.
\<close>

datatype error =
    AssertionError
  | KeyError
  | IndexError
  | ZeroDivisionError
  | TypeError
  | AttributeError
  | OnlyWaveSupported string

datatype command =
    Play string
  | Stop string
  | PlayNextItem
  | PlayEquipItem
  | PlayStartup
  | SetLed bool
  | SetMotor bool
  | BlDutyCycle nat
  | SetSleep bool
  | PasteBackground string
  | PasteTitle "real option" int int
  | PasteDescription string
  | ShowImage
  | TkShow

record tool_config =
  cfg_name :: "string option"
  cfg_hold :: "bool option"
  cfg_sounds :: "string list option"
  cfg_sound_order :: "string option"
  cfg_sound_replay :: "real option"
  cfg_sound_overlap :: "bool option"
  cfg_descriptions :: "string list option"
  cfg_background :: "string option"
  cfg_light :: "bool option"
  cfg_motor :: "bool option"

record app_config =
  sleep_timeout :: real
  tool_change_timeout :: real
  text_scroll_y :: int
  default_background :: string
  spin_duration :: real
  flash_duration :: real
  cfg_tools :: "tool_config list"

record tool =
  text_y :: int
  description :: "string option"
  playbacks :: "string list"
  init_timer :: "real option"
  replay_timer :: real
  name :: string
  hold :: bool
  sounds :: "string list"
  sound_order :: string
  sound_replay :: real
  sound_overlap :: bool
  descriptions :: "string list"
  background :: string
  light_up :: bool
  motor_spin :: bool
  description_selector :: nat
  sound_selector :: nat
  loaded :: bool
  text_cache :: "int option"
  snd_objs :: "string list option"

record gphardware =
  motor_spin_end :: "real option"
  led_flash_end :: "real option"

record tick =
  now :: real
  trigger_down :: bool
  rnd :: nat
  is_playing :: "nat \<Rightarrow> bool"

record app =
  config :: app_config
  button_change :: bool
  current_tool :: nat
  trigger_hold :: "real option"
  was_changing_tool :: bool
  last_trigger :: "real option"
  sleep_mode :: bool
  sleep_timer :: real
  tools :: "tool list"
  hardware :: gphardware
  screen_sleep :: bool
  is_simulated :: bool

definition YELLOW_FADE_TIME :: real where
  "YELLOW_FADE_TIME = 0.5"

definition MAX_TOOLS :: nat where
  "MAX_TOOLS = 60"

definition screen_width :: int where
  "screen_width = 240"

section \<open>Tool\<close>

text \<open>\<^verbatim>\<open>Tool._update_description\<close>: \<open>None\<close> hides the panel, a text renders it.\<close>

definition update_description :: "string option \<Rightarrow> tool \<Rightarrow> tool" where
  "update_description text t = t\<lparr>description := text\<rparr>"

text \<open>\<^verbatim>\<open>Tool._stop_playbacks\<close>: stop every tracked playback, then clear the list.\<close>

definition stop_playbacks :: "tool \<Rightarrow> tool \<times> command list" where
  "stop_playbacks t = (t\<lparr>playbacks := []\<rparr>, map Stop (playbacks t))"

text \<open>\<^verbatim>\<open>Tool.reset\<close>.\<close>

definition reset :: "real \<Rightarrow> tool \<Rightarrow> tool \<times> command list" where
  "reset tm t =
     (let t1 = t\<lparr>description_selector := 0\<rparr>;
          t2 = (if descriptions t1 \<noteq> []
                then update_description (Some (descriptions t1 ! 0)) t1 else t1);
          t3 = t2\<lparr>sound_selector := 0, init_timer := Some tm\<rparr>
      in stop_playbacks t3)"

text \<open>
  \<^verbatim>\<open>Tool.__init__\<close>: only \<^verbatim>\<open>config["name"]\<close> is read without a test for
  the key; every other key has a default. The attributes \<^verbatim>\<open>_text_cache\<close> and
  \<^verbatim>\<open>_sounds\<close> do not exist before \<^verbatim>\<open>load_content\<close>.
\<close>

definition Tool_init :: "app_config \<Rightarrow> real \<Rightarrow> tool_config \<Rightarrow> error + tool" where
  "Tool_init acfg tm c =
     (case cfg_name c of
        None \<Rightarrow> Inl KeyError
      | Some nm \<Rightarrow>
          let t = \<lparr> text_y = text_scroll_y acfg,
                    description = None,
                    playbacks = [],
                    init_timer = None,
                    replay_timer = tm,
                    name = nm,
                    hold = (case cfg_hold c of Some v \<Rightarrow> v | None \<Rightarrow> False),
                    sounds = (case cfg_sounds c of Some v \<Rightarrow> v | None \<Rightarrow> []),
                    sound_order = (case cfg_sound_order c of Some v \<Rightarrow> v | None \<Rightarrow> ''random''),
                    sound_replay = (case cfg_sound_replay c of Some v \<Rightarrow> v | None \<Rightarrow> 0),
                    sound_overlap = (case cfg_sound_overlap c of Some v \<Rightarrow> v | None \<Rightarrow> True),
                    descriptions = (case cfg_descriptions c of Some v \<Rightarrow> v | None \<Rightarrow> []),
                    background = (case cfg_background c of Some v \<Rightarrow> v
                                  | None \<Rightarrow> default_background acfg),
                    light_up = (case cfg_light c of Some v \<Rightarrow> v | None \<Rightarrow> True),
                    motor_spin = (case cfg_motor c of Some v \<Rightarrow> v | None \<Rightarrow> True),
                    description_selector = 0,
                    sound_selector = 0,
                    loaded = False,
                    text_cache = None,
                    snd_objs = None \<rparr>
          in Inr ((fst (reset tm t))\<lparr>loaded := False\<rparr>))"

text \<open>\<^verbatim>\<open>str.endswith\<close>.\<close>

definition endswith :: "string \<Rightarrow> string \<Rightarrow> bool" where
  "endswith s suf \<longleftrightarrow> length suf \<le> length s \<and> drop (length s - length suf) s = suf"

text \<open>The loop of \<^verbatim>\<open>load_content\<close> over the sound files.\<close>

fun load_sounds :: "string list \<Rightarrow> string list \<Rightarrow> error + string list" where
  "load_sounds acc [] = Inr acc"
| "load_sounds acc (s # ss) =
     (if endswith s ''.wav'' then load_sounds (acc @ [s]) ss
      else Inl (OnlyWaveSupported s))"

text \<open>
  \<^verbatim>\<open>Tool.load_content\<close>; \<open>font_w\<close> is the width the title font gives a text
  (\<^verbatim>\<open>font.getsize(text)[0]\<close>).
\<close>

definition load_content :: "(string \<Rightarrow> nat) \<Rightarrow> tool \<Rightarrow> error + tool" where
  "load_content font_w t =
     (if loaded t then Inl AssertionError
      else case load_sounds [] (sounds t) of
             Inl e \<Rightarrow> Inl e
           | Inr ws \<Rightarrow> Inr (t\<lparr>text_cache := Some (int (font_w (name t)) + 5),
                              snd_objs := Some ws,
                              loaded := True\<rparr>))"

text \<open>\<^verbatim>\<open>Tool.unload_content\<close>.\<close>

definition unload_content :: "tool \<Rightarrow> error + tool" where
  "unload_content t =
     (case snd_objs t of
        None \<Rightarrow> Inl AttributeError
      | Some ws \<Rightarrow> Inr (t\<lparr>text_cache := None, snd_objs := Some [], loaded := False\<rparr>))"

text \<open>
  \<^verbatim>\<open>Tool._play_sound\<close>, first half: the choice of the sound. The selector is
  advanced before the loaded sound is read.
\<close>

definition select_sound :: "nat \<Rightarrow> tool \<Rightarrow> error + (tool \<times> string option)" where
  "select_sound r t =
     (if sound_order t = ''selective'' then
        (if length (sounds t) = 0 then Inl ZeroDivisionError
         else let i = (sound_selector t + 1) mod length (sounds t) in
              case snd_objs t of
                None \<Rightarrow> Inl AttributeError
              | Some ws \<Rightarrow>
                  if i < length ws then Inr (t\<lparr>sound_selector := i\<rparr>, Some (ws ! i))
                  else Inl IndexError)
      else if sound_order t = ''random'' then
        (case snd_objs t of
           None \<Rightarrow> Inl AttributeError
         | Some ws \<Rightarrow>
             if ws = [] then Inl IndexError
             else Inr (t, Some (ws ! (r mod length ws))))
      else Inr (t, None))"

text \<open>\<^verbatim>\<open>Tool._play_sound\<close>.\<close>

definition play_sound :: "real \<Rightarrow> nat \<Rightarrow> tool \<Rightarrow> error + (tool \<times> command list)" where
  "play_sound tm r t =
     (case select_sound r t of
        Inl e \<Rightarrow> Inl e
      | Inr (t1, None) \<Rightarrow> Inr (t1, [])
      | Inr (t1, Some w) \<Rightarrow>
          let (t2, c2) = (if \<not> sound_overlap t1 then stop_playbacks t1 else (t1, []))
          in Inr (t2\<lparr>playbacks := playbacks t2 @ [w],
                     replay_timer := tm + sound_replay t2\<rparr>,
                  c2 @ [Play w]))"

text \<open>
  \<^verbatim>\<open>Tool._manage_playbacks\<close>: the handles are distinct objects, so removing each
  finished one keeps exactly the positions that are still playing.
\<close>

definition manage_playbacks :: "(nat \<Rightarrow> bool) \<Rightarrow> tool \<Rightarrow> tool" where
  "manage_playbacks playing t =
     t\<lparr>playbacks := map snd (filter (\<lambda>(i, p). playing i) (enumerate 0 (playbacks t)))\<rparr>"

text \<open>\<^verbatim>\<open>GPHardware.flash_led\<close>, \<^verbatim>\<open>spin_motor\<close> and \<^verbatim>\<open>update\<close>.\<close>

definition flash_led :: "app_config \<Rightarrow> real \<Rightarrow> gphardware \<Rightarrow> gphardware \<times> command list" where
  "flash_led acfg tm h = (h\<lparr>led_flash_end := Some (tm + flash_duration acfg)\<rparr>, [SetLed True])"

definition spin_motor :: "app_config \<Rightarrow> real \<Rightarrow> gphardware \<Rightarrow> gphardware \<times> command list" where
  "spin_motor acfg tm h = (h\<lparr>motor_spin_end := Some (tm + spin_duration acfg)\<rparr>, [SetMotor True])"

definition GPHardware_update :: "real \<Rightarrow> gphardware \<Rightarrow> gphardware \<times> command list" where
  "GPHardware_update tm h =
     (let (h1, c1) = (case motor_spin_end h of
                        Some e \<Rightarrow> if tm > e then (h\<lparr>motor_spin_end := None\<rparr>, [SetMotor False])
                                  else (h, [])
                      | None \<Rightarrow> (h, []));
          (h2, c2) = (case led_flash_end h1 of
                        Some e \<Rightarrow> if tm > e then (h1\<lparr>led_flash_end := None\<rparr>, [SetLed False])
                                  else (h1, [])
                      | None \<Rightarrow> (h1, []))
      in (h2, c1 @ c2))"

text \<open>The light and motor pulses that end both \<^verbatim>\<open>trigger\<close> and \<^verbatim>\<open>loop\<close>.\<close>

definition pulses :: "app_config \<Rightarrow> real \<Rightarrow> tool \<Rightarrow> gphardware \<Rightarrow> gphardware \<times> command list" where
  "pulses acfg tm t h =
     (let (h1, c1) = (if light_up t then flash_led acfg tm h else (h, []));
          (h2, c2) = (if motor_spin t then spin_motor acfg tm h1 else (h1, []))
      in (h2, c1 @ c2))"

text \<open>\<^verbatim>\<open>Tool.trigger\<close>.\<close>

definition trigger ::
  "app_config \<Rightarrow> tick \<Rightarrow> tool \<Rightarrow> gphardware \<Rightarrow> error + (tool \<times> gphardware \<times> command list)" where
  "trigger acfg tk t h =
     (let t1 = (if descriptions t \<noteq> [] then
                  let i = (description_selector t + 1) mod length (descriptions t)
                  in update_description (Some (descriptions t ! i)) (t\<lparr>description_selector := i\<rparr>)
                else t)
      in case (if sounds t1 \<noteq> [] then play_sound (now tk) (rnd tk) t1 else Inr (t1, [])) of
           Inl e \<Rightarrow> Inl e
         | Inr (t2, c2) \<Rightarrow>
             let t3 = manage_playbacks (is_playing tk) t2;
                 (h1, c3) = pulses acfg (now tk) t3 h
             in Inr (t3, h1, c2 @ c3))"

text \<open>\<^verbatim>\<open>Tool.loop\<close>.\<close>

definition loop ::
  "app_config \<Rightarrow> tick \<Rightarrow> tool \<Rightarrow> gphardware \<Rightarrow> error + (tool \<times> gphardware \<times> command list)" where
  "loop acfg tk t h =
     (case (if sound_replay t \<noteq> 0 \<and> now tk > replay_timer t \<and> sounds t \<noteq> []
            then play_sound (now tk) (rnd tk) t else Inr (t, [])) of
        Inl e \<Rightarrow> Inl e
      | Inr (t1, c1) \<Rightarrow>
          let (h1, c2) = pulses acfg (now tk) t1 h
          in Inr (manage_playbacks (is_playing tk) t1, h1, c1 @ c2))"

text \<open>
  Python's \<^verbatim>\<open>%\<close> on floats (the result has the sign of the divisor) and
  \<^verbatim>\<open>int()\<close> of a float (truncation towards zero).
\<close>

definition py_fmod :: "real \<Rightarrow> real \<Rightarrow> real" where
  "py_fmod x m = x - m * of_int \<lfloor>x / m\<rfloor>"

definition py_int :: "real \<Rightarrow> int" where
  "py_int x = (if 0 \<le> x then \<lfloor>x\<rfloor> else \<lceil>x\<rceil>)"

text \<open>The scroll position \<^verbatim>\<open>x_pos\<close> of \<^verbatim>\<open>Tool.render\<close>.\<close>

definition x_pos :: "real \<Rightarrow> int \<Rightarrow> int \<Rightarrow> int" where
  "x_pos tm F W = F - py_int (py_fmod (tm * 160) (of_int (W + F div 2)))"

text \<open>The blend factor of the title while the fade timer is set.\<close>

definition blend_factor :: "real \<Rightarrow> real \<Rightarrow> real" where
  "blend_factor tm t0 = min ((tm - t0) / YELLOW_FADE_TIME) 1"

text \<open>
  \<^verbatim>\<open>Tool.render\<close> on a screen of width \<open>F\<close>. \<open>PasteTitle b x y\<close> pastes the title
  at \<open>(x, y)\<close>: the blend with factor \<open>f\<close> when \<open>b = Some f\<close>, the steady cache itself
  when \<open>b = None\<close>.
\<close>

definition render :: "real \<Rightarrow> int \<Rightarrow> tool \<Rightarrow> error + (tool \<times> command list)" where
  "render tm F t =
     (if \<not> loaded t then Inl AssertionError
      else case text_cache t of
        None \<Rightarrow> Inl AttributeError
      | Some W \<Rightarrow>
          if W + F div 2 = 0 then Inl ZeroDivisionError
          else
            let x = x_pos tm F W;
                (b, t1) = (case init_timer t of
                             Some t0 \<Rightarrow>
                               (Some (blend_factor tm t0),
                                if tm > t0 + YELLOW_FADE_TIME then t\<lparr>init_timer := None\<rparr> else t)
                           | None \<Rightarrow> (None, t));
                ghost = (if x - W - (F div 2) + W > 0
                         then [PasteTitle b (x - W - (F div 2)) (text_y t1)] else []);
                desc = (case description t1 of
                          Some d \<Rightarrow> [PasteDescription d] | None \<Rightarrow> [])
            in Inr (t1, [PasteBackground (background t1), PasteTitle b x (text_y t1)]
                          @ ghost @ desc))"

section \<open>App\<close>

text \<open>
  The loop of \<^verbatim>\<open>App.__init__\<close> over the configured tools: every tool is
  constructed, and its content is loaded while its position is below \<open>MAX_TOOLS\<close>.
\<close>

fun init_tools ::
  "app_config \<Rightarrow> (string \<Rightarrow> nat) \<Rightarrow> real \<Rightarrow> nat \<Rightarrow> tool_config list \<Rightarrow> error + tool list" where
  "init_tools acfg font_w tm i [] = Inr []"
| "init_tools acfg font_w tm i (c # cs) =
     (case Tool_init acfg tm c of
        Inl e \<Rightarrow> Inl e
      | Inr t \<Rightarrow>
          (case (if i < MAX_TOOLS then load_content font_w t else Inr t) of
             Inl e \<Rightarrow> Inl e
           | Inr t1 \<Rightarrow>
               (case init_tools acfg font_w tm (Suc i) cs of
                  Inl e \<Rightarrow> Inl e
                | Inr ts \<Rightarrow> Inr (t1 # ts))))"

text \<open>\<^verbatim>\<open>App.__init__\<close> (the fonts, the cue sounds and the drivers are external).\<close>

definition App_init :: "app_config \<Rightarrow> bool \<Rightarrow> (string \<Rightarrow> nat) \<Rightarrow> real \<Rightarrow> error + app" where
  "App_init acfg simulate font_w tm =
     (case init_tools acfg font_w tm 0 (cfg_tools acfg) of
        Inl e \<Rightarrow> Inl e
      | Inr ts \<Rightarrow>
          Inr \<lparr> config = acfg,
                button_change = False,
                current_tool = 0,
                trigger_hold = None,
                was_changing_tool = False,
                last_trigger = Some 0,
                sleep_mode = False,
                sleep_timer = tm + sleep_timeout acfg,
                tools = ts,
                hardware = \<lparr> motor_spin_end = None, led_flash_end = None \<rparr>,
                screen_sleep = False,
                is_simulated = simulate \<rparr>)"

text \<open>\<^verbatim>\<open>App.next_tool\<close>.\<close>

definition next_tool :: "real \<Rightarrow> app \<Rightarrow> error + (app \<times> command list)" where
  "next_tool tm s =
     (if current_tool s \<ge> length (tools s) then Inl IndexError
      else
        let (t1, c1) = reset tm (tools s ! current_tool s);
            ts1 = (tools s)[current_tool s := t1];
            i = (current_tool s + 1) mod length ts1;
            (t2, c2) = reset tm (ts1 ! i)
        in Inr (s\<lparr>tools := ts1[i := t2], current_tool := i, was_changing_tool := True\<rparr>,
                c1 @ c2 @ [PlayNextItem]))"

text \<open>\<^verbatim>\<open>App.update\<close>, lines 288-289: the active tool is rendered unless asleep.\<close>

definition update_render :: "tick \<Rightarrow> app \<Rightarrow> error + (app \<times> command list)" where
  "update_render tk s =
     (if sleep_mode s then Inr (s, [])
      else if current_tool s \<ge> length (tools s) then Inl IndexError
      else case render (now tk) screen_width (tools s ! current_tool s) of
             Inl e \<Rightarrow> Inl e
           | Inr (t, c) \<Rightarrow> Inr (s\<lparr>tools := (tools s)[current_tool s := t]\<rparr>, c))"

text \<open>
  \<^verbatim>\<open>App.update\<close>, lines 291-320: the trigger is sampled; an edge fires the tool or
  ends the hold and restarts the sleep timer; otherwise a held trigger runs the holding
  tool and may switch tools. Adding a number to \<^verbatim>\<open>None\<close> raises TypeError.
\<close>

definition update_trigger :: "tick \<Rightarrow> app \<Rightarrow> error + (app \<times> command list)" where
  "update_trigger tk s =
     (if trigger_down tk \<noteq> button_change s then
        (case (if trigger_down tk then
                 (if current_tool s \<ge> length (tools s) then Inl IndexError
                  else case trigger (config s) tk (tools s ! current_tool s) (hardware s) of
                         Inl e \<Rightarrow> Inl e
                       | Inr (t, h, c) \<Rightarrow>
                           Inr (s\<lparr>button_change := True,
                                  tools := (tools s)[current_tool s := t],
                                  hardware := h,
                                  trigger_hold := Some (now tk)\<rparr>, c))
               else
                 (let s1 = s\<lparr>button_change := False,
                             last_trigger := trigger_hold s,
                             trigger_hold := None\<rparr>
                  in if was_changing_tool s1
                     then Inr (s1\<lparr>was_changing_tool := False\<rparr>, [PlayEquipItem])
                     else Inr (s1, []))) of
           Inl e \<Rightarrow> Inl e
         | Inr (s2, c2) \<Rightarrow>
             let s3 = s2\<lparr>sleep_timer := now tk + sleep_timeout (config s2)\<rparr>
             in if sleep_mode s3
                then Inr (s3\<lparr>sleep_mode := False, screen_sleep := False\<rparr>,
                          c2 @ (if \<not> is_simulated s3 then [BlDutyCycle 100] else [])
                             @ [SetSleep False])
                else Inr (s3, c2))
      else if trigger_down tk \<and> current_tool s \<ge> length (tools s) then Inl IndexError
      else if trigger_down tk \<and> hold (tools s ! current_tool s) \<and> \<not> was_changing_tool s then
        (case loop (config s) tk (tools s ! current_tool s) (hardware s) of
           Inl e \<Rightarrow> Inl e
         | Inr (t, h, c) \<Rightarrow>
             let s1 = s\<lparr>tools := (tools s)[current_tool s := t], hardware := h\<rparr> in
             (case last_trigger s1 of
                None \<Rightarrow> Inl TypeError
              | Some l \<Rightarrow>
                  if now tk - l < 0.5 + tool_change_timeout (config s1) then
                    (case trigger_hold s1 of
                       None \<Rightarrow> Inl TypeError
                     | Some h0 \<Rightarrow>
                         if now tk > h0 + tool_change_timeout (config s1) then
                           (case next_tool (now tk) (s1\<lparr>trigger_hold := Some (now tk)\<rparr>) of
                              Inl e \<Rightarrow> Inl e
                            | Inr (s2, c2) \<Rightarrow> Inr (s2, c @ c2))
                         else Inr (s1, c))
                  else Inr (s1, c)))
      else if trigger_down tk \<and> trigger_hold s \<noteq> None
              \<and> now tk > the (trigger_hold s) + tool_change_timeout (config s) then
        next_tool (now tk) (s\<lparr>trigger_hold := Some (now tk)\<rparr>)
      else Inr (s, []))"

text \<open>\<^verbatim>\<open>App.update\<close>, lines 322-327: entering sleep mode.\<close>

definition update_sleep :: "tick \<Rightarrow> app \<Rightarrow> app \<times> command list" where
  "update_sleep tk s =
     (if now tk > sleep_timer s \<and> \<not> sleep_mode s
      then (s\<lparr>sleep_mode := True, screen_sleep := True\<rparr>,
            (if \<not> is_simulated s then [BlDutyCycle 0] else []) @ [SetSleep True])
      else (s, []))"

text \<open>
  \<^verbatim>\<open>Screen.update\<close> as \<^verbatim>\<open>App.update\<close> calls it (no updater thread is ever
  started): the simulator window shows every frame, the panel only while not asleep.
\<close>

definition screen_update :: "app \<Rightarrow> command list" where
  "screen_update s =
     (if is_simulated s then [TkShow]
      else if \<not> screen_sleep s then [ShowImage] else [])"

text \<open>\<^verbatim>\<open>App.update\<close>: one tick.\<close>

definition update :: "tick \<Rightarrow> app \<Rightarrow> error + (app \<times> command list)" where
  "update tk s =
     (case update_render tk s of
        Inl e \<Rightarrow> Inl e
      | Inr (s1, c1) \<Rightarrow>
          (case update_trigger tk s1 of
             Inl e \<Rightarrow> Inl e
           | Inr (s2, c2) \<Rightarrow>
               let (s3, c3) = update_sleep tk s2;
                   (h, c4) = GPHardware_update (now tk) (hardware s3);
                   s4 = s3\<lparr>hardware := h\<rparr>
               in Inr (s4, c1 @ c2 @ c3 @ c4 @ screen_update s4)))"

text \<open>
  The loop of \<^verbatim>\<open>main\<close>, over a finite sequence of ticks; the result lists the
  commands of each tick.
\<close>

fun run :: "app \<Rightarrow> tick list \<Rightarrow> error + (app \<times> command list list)" where
  "run s [] = Inr (s, [])"
| "run s (tk # tks) =
     (case update tk s of
        Inl e \<Rightarrow> Inl e
      | Inr (s1, c) \<Rightarrow>
          (case run s1 tks of
             Inl e \<Rightarrow> Inl e
           | Inr (s2, cs) \<Rightarrow> Inr (s2, c # cs)))"

text \<open>\<^verbatim>\<open>next_tool\<close> called once for each of a list of instants.\<close>

fun next_tool_n :: "app \<Rightarrow> real list \<Rightarrow> error + app" where
  "next_tool_n s [] = Inr s"
| "next_tool_n s (tm # tms) =
     (case next_tool tm s of
        Inl e \<Rightarrow> Inl e
      | Inr (s1, c) \<Rightarrow> next_tool_n s1 tms)"

text \<open>\<^verbatim>\<open>Tool.render\<close> called once for each of a list of instants.\<close>

fun render_n :: "real list \<Rightarrow> int \<Rightarrow> tool \<Rightarrow> error + (tool \<times> command list list)" where
  "render_n [] F t = Inr (t, [])"
| "render_n (tm # tms) F t =
     (case render tm F t of
        Inl e \<Rightarrow> Inl e
      | Inr (t1, c) \<Rightarrow>
          (case render_n tms F t1 of
             Inl e \<Rightarrow> Inl e
           | Inr (t2, cs) \<Rightarrow> Inr (t2, c # cs)))"

text \<open>\<^verbatim>\<open>main\<close>: the application is constructed, then ticks.\<close>

definition main ::
  "app_config \<Rightarrow> bool \<Rightarrow> (string \<Rightarrow> nat) \<Rightarrow> real \<Rightarrow> tick list \<Rightarrow> error + (app \<times> command list list)" where
  "main acfg simulate font_w tm tks =
     (case App_init acfg simulate font_w tm of
        Inl e \<Rightarrow> Inl e
      | Inr s \<Rightarrow> run s tks)"

section \<open>Observations and well-formed states\<close>

text \<open>
  A tool switch is observed as the "next item" cue, which only \<open>next_tool\<close> plays; the
  entry into sleep mode as the command \<open>SetSleep True\<close>.
\<close>

definition switches :: "command list \<Rightarrow> nat" where
  "switches c = count_list c PlayNextItem"

definition dims :: "command list \<Rightarrow> nat" where
  "dims c = count_list c (SetSleep True)"

definition final_state :: "error + (app \<times> 'a) \<Rightarrow> app option" where
  "final_state r = (case r of Inl e \<Rightarrow> None | Inr (s, x) \<Rightarrow> Some s)"

definition switch_counts :: "error + (app \<times> command list list) \<Rightarrow> nat list option" where
  "switch_counts r = (case r of Inl e \<Rightarrow> None | Inr (s, cs) \<Rightarrow> Some (map switches cs))"

text \<open>
  A tool whose content is loaded: the title cache exists, its width does not cancel
  half the screen width (the modulus of the scroll position), and there is one loaded
  wave object for each configured sound. \<open>load_content\<close> establishes this.
\<close>

definition tool_ok :: "tool \<Rightarrow> bool" where
  "tool_ok t \<longleftrightarrow>
     loaded t
     \<and> (case text_cache t of Some W \<Rightarrow> W + screen_width div 2 \<noteq> 0 | None \<Rightarrow> False)
     \<and> (case snd_objs t of Some ws \<Rightarrow> length ws = length (sounds t) | None \<Rightarrow> False)"

text \<open>
  The states the application reaches: the active index is in range, every tool is
  loaded, \<^verbatim>\<open>_last_trigger\<close> is a number, and \<^verbatim>\<open>_trigger_hold\<close> is set while
  the trigger is recorded as down.
\<close>

definition app_ok :: "app \<Rightarrow> bool" where
  "app_ok s \<longleftrightarrow>
     current_tool s < length (tools s)
     \<and> list_all tool_ok (tools s)
     \<and> last_trigger s \<noteq> None
     \<and> (button_change s \<longrightarrow> trigger_hold s \<noteq> None)"

section \<open>A sample configuration\<close>

text \<open>
  Two tools: a holding tool with two sounds played in turn, and a tool that leaves
  every optional key out. \<open>ex_app\<close> is the application constructed from it at time 1000.
\<close>

definition ex_hold_cfg :: tool_config where
  "ex_hold_cfg =
     \<lparr> cfg_name = Some ''gun'', cfg_hold = Some True,
       cfg_sounds = Some [''a.wav'', ''b.wav''], cfg_sound_order = Some ''selective'',
       cfg_sound_replay = None, cfg_sound_overlap = None, cfg_descriptions = None,
       cfg_background = None, cfg_light = None, cfg_motor = None \<rparr>"

definition ex_plain_cfg :: tool_config where
  "ex_plain_cfg =
     \<lparr> cfg_name = Some ''rope'', cfg_hold = None, cfg_sounds = None, cfg_sound_order = None,
       cfg_sound_replay = None, cfg_sound_overlap = None, cfg_descriptions = None,
       cfg_background = None, cfg_light = None, cfg_motor = None \<rparr>"

definition ex_acfg :: app_config where
  "ex_acfg =
     \<lparr> sleep_timeout = 5, tool_change_timeout = 1, text_scroll_y = 10,
       default_background = ''bg.png'', spin_duration = 0.1, flash_duration = 0.1,
       cfg_tools = [ex_hold_cfg, ex_plain_cfg] \<rparr>"

definition ex_font :: "string \<Rightarrow> nat" where
  "ex_font s = 10 * length s"

definition ex_tick :: "real \<Rightarrow> bool \<Rightarrow> tick" where
  "ex_tick tm d = \<lparr> now = tm, trigger_down = d, rnd = 0, is_playing = (\<lambda>i. True) \<rparr>"

definition ex_hold_tool :: tool where
  "ex_hold_tool =
     \<lparr> text_y = 10, description = None, playbacks = [], init_timer = Some 1000,
       replay_timer = 1000, name = ''gun'', hold = True, sounds = [''a.wav'', ''b.wav''],
       sound_order = ''selective'', sound_replay = 0, sound_overlap = True,
       descriptions = [], background = ''bg.png'', light_up = True, motor_spin = True,
       description_selector = 0, sound_selector = 0, loaded = True,
       text_cache = Some 35, snd_objs = Some [''a.wav'', ''b.wav''] \<rparr>"

definition ex_plain_tool :: tool where
  "ex_plain_tool =
     \<lparr> text_y = 10, description = None, playbacks = [], init_timer = Some 1000,
       replay_timer = 1000, name = ''rope'', hold = False, sounds = [],
       sound_order = ''random'', sound_replay = 0, sound_overlap = True,
       descriptions = [], background = ''bg.png'', light_up = True, motor_spin = True,
       description_selector = 0, sound_selector = 0, loaded = True,
       text_cache = Some 45, snd_objs = Some [] \<rparr>"

definition ex_app :: app where
  "ex_app =
     \<lparr> config = ex_acfg, button_change = False, current_tool = 0, trigger_hold = None,
       was_changing_tool = False, last_trigger = Some 0, sleep_mode = False,
       sleep_timer = 1005, tools = [ex_hold_tool, ex_plain_tool],
       hardware = \<lparr> motor_spin_end = None, led_flash_end = None \<rparr>,
       screen_sleep = False, is_simulated = True \<rparr>"

definition ex_sequential_tool :: tool where
  "ex_sequential_tool = ex_hold_tool\<lparr>sound_order := ''sequential''\<rparr>"

definition ex_silent_tool :: tool where
  "ex_silent_tool = ex_hold_tool\<lparr>sounds := [], snd_objs := Some []\<rparr>"

definition ex_held_app :: app where
  "ex_held_app = ex_app\<lparr>button_change := True, trigger_hold := Some 1000\<rparr>"

definition ex_idle_ticks :: "tick list" where
  "ex_idle_ticks = [ex_tick 1001 False, ex_tick 1005.1 False, ex_tick 1006 False]"

definition ex_plain_held_app :: app where
  "ex_plain_held_app = ex_app\<lparr>button_change := True, trigger_hold := Some 1000, current_tool := 1\<rparr>"

definition ex_held_ticks :: "tick list" where
  "ex_held_ticks = [ex_tick 1000.5 True, ex_tick 1001.1 True, ex_tick 1001.6 True,
                    ex_tick 1002.2 True, ex_tick 1002.5 True]"

definition ex_cold_hold :: "tick list" where
  "ex_cold_hold = [ex_tick 1000 True, ex_tick 1000.5 True, ex_tick 1001.1 True,
                   ex_tick 1001.6 True, ex_tick 1002.1 True, ex_tick 1002.5 True]"

definition ex_tapped_app :: app where
  "ex_tapped_app = ex_app\<lparr>button_change := True, trigger_hold := Some 1000.2,
                           last_trigger := Some 1000\<rparr>"

definition ex_tap_hold :: "tick list" where
  "ex_tap_hold = [ex_tick 1000.5 True] @ [ex_tick 1001.3 True] @ [ex_tick 1001.5 True]
                   @ [ex_tick 1002.4 True] @ [ex_tick 1002.5 True]"

definition ex_unloaded_tool :: tool where
  "ex_unloaded_tool = ex_plain_tool\<lparr>loaded := False, text_cache := None, snd_objs := None\<rparr>"

section \<open>Lemmas\<close>

lemma reset_fields:
  "reset tm t = (t', c) \<Longrightarrow>
     loaded t' = loaded t \<and> text_cache t' = text_cache t \<and> snd_objs t' = snd_objs t
     \<and> sounds t' = sounds t \<and> hold t' = hold t \<and> init_timer t' = Some tm
     \<and> sound_selector t' = 0 \<and> description_selector t' = 0 \<and> playbacks t' = []
     \<and> c = map Stop (playbacks t)"
  by (cases "descriptions t = []")
     (auto simp: reset_def stop_playbacks_def update_description_def Let_def)

lemma reset_ok: "tool_ok t \<Longrightarrow> tool_ok (fst (reset tm t))"
  using reset_fields[of tm t "fst (reset tm t)" "snd (reset tm t)"]
  by (simp add: tool_ok_def split: option.splits)

lemma load_sounds_length: "load_sounds acc ss = Inr ws \<Longrightarrow> length ws = length acc + length ss"
  by (induction ss arbitrary: acc) (auto split: if_splits)

lemma load_content_ok: "load_content fw t = Inr u \<Longrightarrow> tool_ok u"
  by (auto simp: load_content_def tool_ok_def screen_width_def split: if_splits sum.splits dest: load_sounds_length)

lemma select_sound_ok:
  assumes "tool_ok t" "sounds t \<noteq> []"
  shows "\<exists>t' w. select_sound r t = Inr (t', w) \<and> tool_ok t' \<and> hold t' = hold t
     \<and> t' = t\<lparr>sound_selector := sound_selector t'\<rparr>"
  using assms
  by (auto simp: select_sound_def tool_ok_def Let_def split: option.splits)

lemma py_fmod_range: "0 < m \<Longrightarrow> 0 \<le> py_fmod x m \<and> py_fmod x m < m"
proof -
  assume m: "0 < m"
  have "m * of_int \<lfloor>x / m\<rfloor> \<le> m * (x / m)"
    using m by (intro mult_left_mono) auto
  then have lo: "m * of_int \<lfloor>x / m\<rfloor> \<le> x" using m by simp
  have "m * (x / m) < m * (of_int \<lfloor>x / m\<rfloor> + 1)"
    using m by (intro mult_strict_left_mono) linarith+
  then have hi: "x < m * of_int \<lfloor>x / m\<rfloor> + m" using m by (simp add: algebra_simps)
  show ?thesis using lo hi by (simp add: py_fmod_def)
qed

lemma blend_mono: "a \<le> b \<Longrightarrow> blend_factor a t0 \<le> blend_factor b t0"
  by (auto simp: blend_factor_def YELLOW_FADE_TIME_def min_def)

lemma blend_sat: "blend_factor tm t0 = 1 \<longleftrightarrow> tm - t0 \<ge> 0.5"
  by (auto simp: blend_factor_def YELLOW_FADE_TIME_def min_def)

lemma switches_simps [simp]:
  "switches [] = 0" "switches (c @ d) = switches c + switches d"
  "switches (map Stop ws) = 0" "switches (PlayNextItem # c) = Suc (switches c)"
  "x \<noteq> PlayNextItem \<Longrightarrow> switches (x # c) = switches c"
  by (induction ws) (auto simp: switches_def)

lemma dims_simps [simp]:
  "dims [] = 0" "dims (c @ d) = dims c + dims d"
  "dims (map Stop ws) = 0" "dims (SetSleep True # c) = Suc (dims c)"
  "x \<noteq> SetSleep True \<Longrightarrow> dims (x # c) = dims c"
  by (induction ws) (auto simp: dims_def)

lemma stop_playbacks_ok:
  "stop_playbacks t = (t', c) \<Longrightarrow> t' = t\<lparr>playbacks := []\<rparr> \<and> switches c = 0 \<and> dims c = 0"
  by (auto simp: stop_playbacks_def)

lemma tool_ok_playbacks [simp]: "tool_ok (t\<lparr>playbacks := p\<rparr>) = tool_ok t"
  and tool_ok_replay [simp]: "tool_ok (t\<lparr>replay_timer := x\<rparr>) = tool_ok t"
  and tool_ok_selector [simp]: "tool_ok (t\<lparr>sound_selector := i\<rparr>) = tool_ok t"
  and tool_ok_dsel [simp]: "tool_ok (t\<lparr>description_selector := j\<rparr>) = tool_ok t"
  and tool_ok_desc [simp]: "tool_ok (t\<lparr>description := d\<rparr>) = tool_ok t"
  and tool_ok_timer [simp]: "tool_ok (t\<lparr>init_timer := y\<rparr>) = tool_ok t"
  by (simp_all add: tool_ok_def cong: option.case_cong)

lemma play_sound_ok:
  assumes "tool_ok t" "sounds t \<noteq> []"
  shows "\<exists>t' c. play_sound tm r t = Inr (t', c) \<and> tool_ok t' \<and> hold t' = hold t
           \<and> light_up t' = light_up t \<and> motor_spin t' = motor_spin t
           \<and> switches c = 0 \<and> dims c = 0"
proof -
  obtain t1 w where s: "select_sound r t = Inr (t1, w)" and ok: "tool_ok t1"
    and h: "hold t1 = hold t" and eq: "t1 = t\<lparr>sound_selector := sound_selector t1\<rparr>"
    using select_sound_ok[OF assms, of r] by blast
  have f: "light_up t1 = light_up t" "motor_spin t1 = motor_spin t"
    by (subst eq, simp)+
  show ?thesis
    using s ok h f
    by (cases w) (auto simp: play_sound_def stop_playbacks_def)
qed

lemma manage_playbacks_ok [simp]:
  "tool_ok (manage_playbacks p t) = tool_ok t" "hold (manage_playbacks p t) = hold t"
  by (simp_all add: manage_playbacks_def)

lemma pulses_ok:
  "pulses acfg tm t h = (h', c) \<Longrightarrow> switches c = 0 \<and> dims c = 0"
  by (auto simp: pulses_def flash_led_def spin_motor_def split: if_splits)

lemma trigger_ok:
  assumes "tool_ok t"
  shows "\<exists>t' h' c. trigger acfg tk t h = Inr (t', h', c) \<and> tool_ok t' \<and> hold t' = hold t
           \<and> switches c = 0 \<and> dims c = 0"
proof -
  define t1 where "t1 = (if descriptions t \<noteq> [] then
                  let i = (description_selector t + 1) mod length (descriptions t)
                  in update_description (Some (descriptions t ! i)) (t\<lparr>description_selector := i\<rparr>)
                else t)"
  have ok1: "tool_ok t1" "hold t1 = hold t"
    using assms by (auto simp: t1_def update_description_def Let_def)
  obtain t2 c2 where p: "(if sounds t1 \<noteq> [] then play_sound (now tk) (rnd tk) t1 else Inr (t1, [])) = Inr (t2, c2)"
    and ok2: "tool_ok t2" "hold t2 = hold t" "switches c2 = 0" "dims c2 = 0"
    using play_sound_ok[OF ok1(1), of "now tk" "rnd tk"] ok1 by (cases "sounds t1 = []") auto
  obtain h1 c3 where q: "pulses acfg (now tk) (manage_playbacks (is_playing tk) t2) h = (h1, c3)"
    by (cases "pulses acfg (now tk) (manage_playbacks (is_playing tk) t2) h") auto
  have "trigger acfg tk t h = Inr (manage_playbacks (is_playing tk) t2, h1, c2 @ c3)"
    unfolding trigger_def t1_def[symmetric] using p q by (simp add: Let_def)
  then show ?thesis using ok2 pulses_ok[OF q] by simp
qed

lemma loop_ok:
  assumes "tool_ok t"
  shows "\<exists>t' h' c. loop acfg tk t h = Inr (t', h', c) \<and> tool_ok t' \<and> hold t' = hold t
           \<and> switches c = 0 \<and> dims c = 0"
proof -
  obtain t1 c1 where p: "(if sound_replay t \<noteq> 0 \<and> now tk > replay_timer t \<and> sounds t \<noteq> []
            then play_sound (now tk) (rnd tk) t else Inr (t, [])) = Inr (t1, c1)"
    and ok1: "tool_ok t1" "hold t1 = hold t" "switches c1 = 0" "dims c1 = 0"
    using play_sound_ok[OF assms, of "now tk" "rnd tk"] assms
    by (cases "sound_replay t \<noteq> 0 \<and> now tk > replay_timer t \<and> sounds t \<noteq> []") auto
  obtain h1 c2 where q: "pulses acfg (now tk) t1 h = (h1, c2)"
    by (cases "pulses acfg (now tk) t1 h") auto
  have "loop acfg tk t h = Inr (manage_playbacks (is_playing tk) t1, h1, c1 @ c2)"
    unfolding loop_def using p q by simp
  then show ?thesis using ok1 pulses_ok[OF q] by simp
qed

lemma render_ok:
  assumes "tool_ok t"
  shows "\<exists>t' c. render tm screen_width t = Inr (t', c) \<and> tool_ok t' \<and> hold t' = hold t
           \<and> switches c = 0 \<and> dims c = 0"
  using assms
  by (auto simp: render_def tool_ok_def Let_def split: option.splits)

lemma list_all_update: "list_all P xs \<Longrightarrow> P x \<Longrightarrow> list_all P (xs[i := x])"
  by (auto simp: list_all_iff dest!: set_update_subset_insert[THEN subsetD])

lemma map_hold_update:
  "i < length ts \<Longrightarrow> hold t = hold (ts ! i) \<Longrightarrow> map hold (ts[i := t]) = map hold ts"
  by (simp add: map_update list_update_same_conv)

lemma next_tool_ok:
  assumes "current_tool s < length (tools s)"
  shows "\<exists>s' c. next_tool tm s = Inr (s', c)
           \<and> current_tool s' = (current_tool s + 1) mod length (tools s)
           \<and> length (tools s') = length (tools s)
           \<and> map hold (tools s') = map hold (tools s)
           \<and> (list_all tool_ok (tools s) \<longrightarrow> list_all tool_ok (tools s'))
           \<and> s' = s\<lparr>tools := tools s', current_tool := current_tool s',
                      was_changing_tool := True\<rparr>
           \<and> switches c = 1 \<and> dims c = 0"
proof -
  let ?i = "current_tool s"
  obtain t1 c1 where r1: "reset tm (tools s ! ?i) = (t1, c1)"
    by (cases "reset tm (tools s ! ?i)") auto
  let ?ts1 = "(tools s)[?i := t1]"
  let ?j = "(?i + 1) mod length ?ts1"
  obtain t2 c2 where r2: "reset tm (?ts1 ! ?j) = (t2, c2)"
    by (cases "reset tm (?ts1 ! ?j)") auto
  have "0 < length (tools s)" using assms by linarith
  then have j: "?j < length (tools s)" by simp
  have eq: "next_tool tm s =
      Inr (s\<lparr>tools := ?ts1[?j := t2], current_tool := ?j, was_changing_tool := True\<rparr>,
           c1 @ c2 @ [PlayNextItem])"
    using assms r1 r2 by (simp add: next_tool_def Let_def)
  have h1: "hold t1 = hold (tools s ! ?i)" using reset_fields[OF r1] by simp
  have h2: "hold t2 = hold (?ts1 ! ?j)" using reset_fields[OF r2] by simp
  have mh: "map hold (?ts1[?j := t2]) = map hold (tools s)"
    using assms j h1 h2 by (simp add: map_hold_update)
  have ok: "list_all tool_ok (tools s) \<longrightarrow> list_all tool_ok (?ts1[?j := t2])"
  proof
    assume a: "list_all tool_ok (tools s)"
    then have "tool_ok (tools s ! ?i)" using assms by (simp add: list_all_length)
    then have "tool_ok t1" using reset_ok[of "tools s ! ?i" tm] r1 by simp
    then have b: "list_all tool_ok ?ts1" using a by (rule list_all_update[rotated])
    then have "tool_ok (?ts1 ! ?j)" using j by (simp add: list_all_length)
    then have "tool_ok t2" using reset_ok[of "?ts1 ! ?j" tm] r2 by simp
    then show "list_all tool_ok (?ts1[?j := t2])" using b by (rule list_all_update[rotated])
  qed
  have c: "switches (c1 @ c2 @ [PlayNextItem]) = 1" "dims (c1 @ c2 @ [PlayNextItem]) = 0"
    using reset_fields[OF r1] reset_fields[OF r2] by simp_all
  show ?thesis
    unfolding eq using mh ok c by simp
qed

lemma update_render_ok:
  assumes "app_ok s"
  shows "\<exists>s' c. update_render tk s = Inr (s', c) \<and> app_ok s'
           \<and> map hold (tools s') = map hold (tools s)
           \<and> s' = s\<lparr>tools := tools s'\<rparr>
           \<and> switches c = 0 \<and> dims c = 0"
proof (cases "sleep_mode s")
  case True
  then show ?thesis using assms by (simp add: update_render_def)
next
  case False
  let ?i = "current_tool s"
  have i: "?i < length (tools s)" and all: "list_all tool_ok (tools s)"
    using assms by (simp_all add: app_ok_def)
  then have "tool_ok (tools s ! ?i)" by (simp add: list_all_length)
  then obtain t c where r: "render (now tk) screen_width (tools s ! ?i) = Inr (t, c)"
    and ok: "tool_ok t" "hold t = hold (tools s ! ?i)" "switches c = 0" "dims c = 0"
    using render_ok by blast
  have "update_render tk s = Inr (s\<lparr>tools := (tools s)[?i := t]\<rparr>, c)"
    using False i r by (simp add: update_render_def)
  moreover have "app_ok (s\<lparr>tools := (tools s)[?i := t]\<rparr>)"
    using assms ok(1) by (simp add: app_ok_def list_all_update)
  ultimately show ?thesis using ok i by (simp add: map_hold_update)
qed

lemma app_ok_frame [simp]:
  "app_ok (s\<lparr>sleep_mode := a\<rparr>) = app_ok s"
  "app_ok (s\<lparr>screen_sleep := b\<rparr>) = app_ok s"
  "app_ok (s\<lparr>hardware := hw\<rparr>) = app_ok s"
  "app_ok (s\<lparr>sleep_timer := d\<rparr>) = app_ok s"
  "app_ok (s\<lparr>was_changing_tool := w\<rparr>) = app_ok s"
  by (simp_all add: app_ok_def)

lemma update_trigger_idle:
  "\<not> trigger_down tk \<Longrightarrow> \<not> button_change s \<Longrightarrow> update_trigger tk s = Inr (s, [])"
  by (simp add: update_trigger_def)

lemma update_trigger_edge:
  assumes "app_ok s" "trigger_down tk \<noteq> button_change s"
  shows "\<exists>s' c. update_trigger tk s = Inr (s', c) \<and> app_ok s'
     \<and> button_change s' = trigger_down tk
     \<and> sleep_timer s' = now tk + sleep_timeout (config s) \<and> \<not> sleep_mode s'
     \<and> config s' = config s \<and> current_tool s' = current_tool s
     \<and> is_simulated s' = is_simulated s
     \<and> map hold (tools s') = map hold (tools s)
     \<and> (trigger_down tk \<longrightarrow> trigger_hold s' = Some (now tk) \<and> last_trigger s' = last_trigger s
            \<and> was_changing_tool s' = was_changing_tool s)
     \<and> (\<not> trigger_down tk \<longrightarrow> last_trigger s' = trigger_hold s \<and> trigger_hold s' = None
            \<and> \<not> was_changing_tool s' \<and> tools s' = tools s)
     \<and> (sleep_mode s \<longrightarrow> SetSleep False \<in> set c)
     \<and> switches c = 0 \<and> dims c = 0"
proof (cases "trigger_down tk")
  case True
  let ?i = "current_tool s"
  have i: "?i < length (tools s)" and all: "list_all tool_ok (tools s)"
    and lt: "last_trigger s \<noteq> None"
    using assms by (simp_all add: app_ok_def)
  then have "tool_ok (tools s ! ?i)" by (simp add: list_all_length)
  then obtain t h c where r: "trigger (config s) tk (tools s ! ?i) (hardware s) = Inr (t, h, c)"
    and ok: "tool_ok t" "hold t = hold (tools s ! ?i)" "switches c = 0" "dims c = 0"
    using trigger_ok by blast
  have oks: "list_all tool_ok ((tools s)[?i := t])" using all ok(1) by (simp add: list_all_update)
  show ?thesis
    using True assms(2) i r ok oks lt
    by (simp add: update_trigger_def Let_def app_ok_def map_hold_update)
next
  case False
  then have bc: "button_change s" using assms(2) by simp
  then have th: "trigger_hold s \<noteq> None" using assms(1) by (simp add: app_ok_def)
  show ?thesis
    using False bc th assms(1)
    by (simp add: update_trigger_def Let_def app_ok_def)
qed

lemma update_trigger_held:
  assumes ok: "app_ok s" and dn: "trigger_down tk" and bc: "button_change s"
    and th: "trigger_hold s = Some h" and lt: "last_trigger s = Some l"
  shows "\<exists>s' c. update_trigger tk s = Inr (s', c) \<and> app_ok s'
     \<and> button_change s' \<and> last_trigger s' = Some l
     \<and> config s' = config s \<and> sleep_timer s' = sleep_timer s \<and> sleep_mode s' = sleep_mode s
     \<and> is_simulated s' = is_simulated s
     \<and> map hold (tools s') = map hold (tools s)
     \<and> dims c = 0
     \<and> (if now tk > h + tool_change_timeout (config s)
            \<and> (hold (tools s ! current_tool s) \<and> \<not> was_changing_tool s
                 \<longrightarrow> now tk - l < 0.5 + tool_change_timeout (config s))
         then switches c = 1 \<and> trigger_hold s' = Some (now tk) \<and> was_changing_tool s'
              \<and> current_tool s' = (current_tool s + 1) mod length (tools s)
         else switches c = 0 \<and> trigger_hold s' = Some h
              \<and> was_changing_tool s' = was_changing_tool s
              \<and> current_tool s' = current_tool s)"
proof -
  let ?i = "current_tool s"
  let ?T = "tool_change_timeout (config s)"
  have i: "?i < length (tools s)" and all: "list_all tool_ok (tools s)"
    using ok by (simp_all add: app_ok_def)
  show ?thesis
  proof (cases "hold (tools s ! ?i) \<and> \<not> was_changing_tool s")
    case True
    have "tool_ok (tools s ! ?i)" using i all by (simp add: list_all_length)
    then obtain t hw c where r: "loop (config s) tk (tools s ! ?i) (hardware s) = Inr (t, hw, c)"
      and tok: "tool_ok t" "hold t = hold (tools s ! ?i)" "switches c = 0" "dims c = 0"
      using loop_ok by blast
    define s1 where "s1 = s\<lparr>tools := (tools s)[?i := t], hardware := hw\<rparr>"
    have oks: "list_all tool_ok (tools s1)" using all tok(1) by (simp add: s1_def list_all_update)
    have mh: "map hold (tools s1) = map hold (tools s)"
      using i tok(2) by (simp add: s1_def map_hold_update)
    show ?thesis
    proof (cases "now tk - l < 0.5 + ?T \<and> now tk > h + ?T")
      case sw: True
      let ?s1' = "s1\<lparr>trigger_hold := Some (now tk)\<rparr>"
      have "current_tool ?s1' < length (tools ?s1')" using i by (simp add: s1_def)
      from next_tool_ok[OF this, of "now tk"]
      obtain s2 c2 where n: "next_tool (now tk) ?s1' = Inr (s2, c2)"
        and n1: "current_tool s2 = (current_tool ?s1' + 1) mod length (tools ?s1')"
        and n2: "length (tools s2) = length (tools ?s1')"
        and n3: "map hold (tools s2) = map hold (tools ?s1')"
        and n4: "list_all tool_ok (tools ?s1') \<longrightarrow> list_all tool_ok (tools s2)"
        and n5: "s2 = ?s1'\<lparr>tools := tools s2, current_tool := current_tool s2,
                      was_changing_tool := True\<rparr>"
        and n6: "switches c2 = 1" "dims c2 = 0"
        by blast
      have eq: "update_trigger tk s = Inr (s2, c @ c2)"
        using dn bc i True r sw th lt n
        by (simp add: update_trigger_def Let_def s1_def)
      have flds: "button_change s2 = button_change s" "last_trigger s2 = last_trigger s"
          "config s2 = config s" "sleep_timer s2 = sleep_timer s" "sleep_mode s2 = sleep_mode s"
          "is_simulated s2 = is_simulated s" "trigger_hold s2 = Some (now tk)"
          "was_changing_tool s2"
        by (subst n5, simp add: s1_def)+
      have cur: "current_tool s2 = (?i + 1) mod length (tools s)"
        using n1 by (simp add: s1_def)
      have "0 < length (tools s)" using i by linarith
      then have cur_lt: "current_tool s2 < length (tools s2)"
        using n2 cur by (simp add: s1_def)
      have ok2: "app_ok s2"
        using n4 oks cur_lt flds lt bc by (simp add: app_ok_def)
      show ?thesis
        unfolding eq using ok2 flds lt bc sw True n3 mh n6 tok cur by simp
    next
      case nsw: False
      have eq: "update_trigger tk s = Inr (s1, c)"
        using dn bc i True r nsw th lt
        by (auto simp add: update_trigger_def Let_def s1_def)
      have ok1: "app_ok s1" using ok oks by (simp add: app_ok_def s1_def)
      show ?thesis
        unfolding eq using ok1 nsw True mh tok bc lt th by (auto simp: s1_def)
    qed
  next
    case False
    show ?thesis
    proof (cases "now tk > h + ?T")
      case sw: True
      let ?s1' = "s\<lparr>trigger_hold := Some (now tk)\<rparr>"
      have "current_tool ?s1' < length (tools ?s1')" using i by simp
      from next_tool_ok[OF this, of "now tk"]
      obtain s2 c2 where n: "next_tool (now tk) ?s1' = Inr (s2, c2)"
        and n1: "current_tool s2 = (current_tool ?s1' + 1) mod length (tools ?s1')"
        and n2: "length (tools s2) = length (tools ?s1')"
        and n3: "map hold (tools s2) = map hold (tools ?s1')"
        and n4: "list_all tool_ok (tools ?s1') \<longrightarrow> list_all tool_ok (tools s2)"
        and n5: "s2 = ?s1'\<lparr>tools := tools s2, current_tool := current_tool s2,
                      was_changing_tool := True\<rparr>"
        and n6: "switches c2 = 1" "dims c2 = 0"
        by blast
      have eq: "update_trigger tk s = Inr (s2, c2)"
        using dn bc i False sw th n
        by (auto simp add: update_trigger_def)
      have flds: "button_change s2 = button_change s" "last_trigger s2 = last_trigger s"
          "config s2 = config s" "sleep_timer s2 = sleep_timer s" "sleep_mode s2 = sleep_mode s"
          "is_simulated s2 = is_simulated s" "trigger_hold s2 = Some (now tk)"
          "was_changing_tool s2"
        by (subst n5, simp)+
      have cur: "current_tool s2 = (?i + 1) mod length (tools s)"
        using n1 by simp
      have "0 < length (tools s)" using i by linarith
      then have cur_lt: "current_tool s2 < length (tools s2)"
        using n2 cur by simp
      have ok2: "app_ok s2"
        using n4 all cur_lt flds lt bc by (simp add: app_ok_def)
      show ?thesis
        unfolding eq using ok2 flds lt bc sw False n3 n6 cur by auto
    next
      case nsw: False
      have eq: "update_trigger tk s = Inr (s, [])"
        using dn bc i False nsw th
        by (auto simp add: update_trigger_def)
      show ?thesis
        unfolding eq using ok nsw False bc lt th by auto
    qed
  qed
qed

lemma GPHardware_update_quiet:
  "GPHardware_update tm h = (h', c) \<Longrightarrow> switches c = 0 \<and> dims c = 0"
  by (auto simp: GPHardware_update_def Let_def split: option.splits if_splits)

lemma screen_update_quiet [simp]: "switches (screen_update s) = 0" "dims (screen_update s) = 0"
  by (simp_all add: screen_update_def)

lemma update_from_trigger:
  assumes r: "update_render tk s = Inr (s1, c1)" and q: "switches c1 = 0" "dims c1 = 0"
    and t: "update_trigger tk s1 = Inr (s2, c2)"
  shows "\<exists>s' c hw. update tk s = Inr (s', c)
     \<and> s' = s2\<lparr>sleep_mode := sleep_mode s2 \<or> now tk > sleep_timer s2,
               screen_sleep := (if now tk > sleep_timer s2 \<and> \<not> sleep_mode s2 then True
                                else screen_sleep s2),
               hardware := hw\<rparr>
     \<and> switches c = switches c2
     \<and> dims c = dims c2 + (if now tk > sleep_timer s2 \<and> \<not> sleep_mode s2 then 1 else 0)"
proof -
  obtain s3 c3 where sl: "update_sleep tk s2 = (s3, c3)" by (cases "update_sleep tk s2") auto
  obtain hw c4 where hu: "GPHardware_update (now tk) (hardware s3) = (hw, c4)"
    by (cases "GPHardware_update (now tk) (hardware s3)") auto
  have eq: "update tk s = Inr (s3\<lparr>hardware := hw\<rparr>, c1 @ c2 @ c3 @ c4 @ screen_update (s3\<lparr>hardware := hw\<rparr>))"
    using r t sl hu by (simp add: update_def Let_def)
  have s3: "s3 = s2\<lparr>sleep_mode := sleep_mode s2 \<or> now tk > sleep_timer s2,
               screen_sleep := (if now tk > sleep_timer s2 \<and> \<not> sleep_mode s2 then True
                                else screen_sleep s2)\<rparr>"
    and c3: "switches c3 = 0" "dims c3 = (if now tk > sleep_timer s2 \<and> \<not> sleep_mode s2 then 1 else 0)"
    using sl by (auto simp: update_sleep_def split: if_splits)
  show ?thesis
    unfolding eq using s3 c3 q GPHardware_update_quiet[OF hu] by auto
qed

lemma update_edge:
  assumes "app_ok s" "trigger_down tk \<noteq> button_change s"
  shows "\<exists>s' c. update tk s = Inr (s', c) \<and> app_ok s'
     \<and> button_change s' = trigger_down tk
     \<and> sleep_timer s' = now tk + sleep_timeout (config s)
     \<and> (sleep_mode s' \<longleftrightarrow> sleep_timeout (config s) < 0)
     \<and> dims c = (if sleep_timeout (config s) < 0 then 1 else 0)
     \<and> config s' = config s \<and> current_tool s' = current_tool s
     \<and> is_simulated s' = is_simulated s
     \<and> map hold (tools s') = map hold (tools s)
     \<and> (trigger_down tk \<longrightarrow> trigger_hold s' = Some (now tk) \<and> last_trigger s' = last_trigger s
            \<and> was_changing_tool s' = was_changing_tool s)
     \<and> (\<not> trigger_down tk \<longrightarrow> last_trigger s' = trigger_hold s \<and> trigger_hold s' = None
            \<and> \<not> was_changing_tool s')
     \<and> (sleep_mode s \<longrightarrow> SetSleep False \<in> set c)
     \<and> switches c = 0"
proof -
  obtain s1 c1 ts where r: "update_render tk s = Inr (s1, c1)" and ok1: "app_ok s1"
    and mh: "map hold (tools s1) = map hold (tools s)" and e1: "s1 = s\<lparr>tools := ts\<rparr>"
    and q: "switches c1 = 0" "dims c1 = 0"
    using update_render_ok[OF assms(1), of tk] by metis
  have edge1: "trigger_down tk \<noteq> button_change s1" using assms(2) by (simp add: e1)
  from update_trigger_edge[OF ok1 edge1]
  obtain s2 c2 where t: "update_trigger tk s1 = Inr (s2, c2)" and ok2: "app_ok s2"
     and f: "button_change s2 = trigger_down tk"
       "sleep_timer s2 = now tk + sleep_timeout (config s1)" "\<not> sleep_mode s2"
       "config s2 = config s1" "current_tool s2 = current_tool s1"
       "is_simulated s2 = is_simulated s1"
       "map hold (tools s2) = map hold (tools s1)"
       "trigger_down tk \<longrightarrow> trigger_hold s2 = Some (now tk) \<and> last_trigger s2 = last_trigger s1
            \<and> was_changing_tool s2 = was_changing_tool s1"
       "\<not> trigger_down tk \<longrightarrow> last_trigger s2 = trigger_hold s1 \<and> trigger_hold s2 = None
            \<and> \<not> was_changing_tool s2 \<and> tools s2 = tools s1"
       "sleep_mode s1 \<longrightarrow> SetSleep False \<in> set c2"
       "switches c2 = 0" "dims c2 = 0"
    by blast
  from update_from_trigger[OF r q t]
  obtain s' c hw where u: "update tk s = Inr (s', c)"
    and e: "s' = s2\<lparr>sleep_mode := sleep_mode s2 \<or> now tk > sleep_timer s2,
               screen_sleep := (if now tk > sleep_timer s2 \<and> \<not> sleep_mode s2 then True
                                else screen_sleep s2),
               hardware := hw\<rparr>"
    and cs: "switches c = switches c2"
     "dims c = dims c2 + (if now tk > sleep_timer s2 \<and> \<not> sleep_mode s2 then 1 else 0)"
    by blast
  have mem: "sleep_mode s \<longrightarrow> SetSleep False \<in> set c"
  proof
    assume sm: "sleep_mode s"
    then have "SetSleep False \<in> set c2" using f(10) by (simp add: e1)
    moreover have "set c2 \<subseteq> set c"
      using u r t by (auto simp: update_def Let_def split: prod.splits)
    ultimately show "SetSleep False \<in> set c" by blast
  qed
  have ok': "app_ok s'" using ok2 by (simp add: e)
  show ?thesis
    unfolding u using ok' f cs mh mem by (simp add: e e1)
qed

lemma update_held:
  assumes ok: "app_ok s" and dn: "trigger_down tk" and bc: "button_change s"
    and th: "trigger_hold s = Some h" and lt: "last_trigger s = Some l"
  shows "\<exists>s' c. update tk s = Inr (s', c) \<and> app_ok s'
     \<and> button_change s' \<and> last_trigger s' = Some l
     \<and> config s' = config s \<and> sleep_timer s' = sleep_timer s
     \<and> (sleep_mode s' \<longleftrightarrow> sleep_mode s \<or> now tk > sleep_timer s)
     \<and> dims c = (if now tk > sleep_timer s \<and> \<not> sleep_mode s then 1 else 0)
     \<and> is_simulated s' = is_simulated s
     \<and> map hold (tools s') = map hold (tools s)
     \<and> (if now tk > h + tool_change_timeout (config s)
            \<and> (hold (tools s ! current_tool s) \<and> \<not> was_changing_tool s
                 \<longrightarrow> now tk - l < 0.5 + tool_change_timeout (config s))
         then switches c = 1 \<and> trigger_hold s' = Some (now tk) \<and> was_changing_tool s'
              \<and> current_tool s' = (current_tool s + 1) mod length (tools s)
         else switches c = 0 \<and> trigger_hold s' = Some h
              \<and> was_changing_tool s' = was_changing_tool s
              \<and> current_tool s' = current_tool s)"
proof -
  obtain s1 c1 ts where r: "update_render tk s = Inr (s1, c1)" and ok1: "app_ok s1"
    and mh: "map hold (tools s1) = map hold (tools s)" and e1: "s1 = s\<lparr>tools := ts\<rparr>"
    and q: "switches c1 = 0" "dims c1 = 0"
    using update_render_ok[OF ok, of tk] by metis
  have p: "button_change s1" "trigger_hold s1 = Some h" "last_trigger s1 = Some l"
    using bc th lt by (simp_all add: e1)
  have len: "length (tools s1) = length (tools s)" using mh by (metis length_map)
  have cur: "current_tool s < length (tools s)" using ok by (simp add: app_ok_def)
  have c1: "current_tool s1 = current_tool s" by (simp add: e1)
  have "hold (tools s1 ! current_tool s) = map hold (tools s1) ! current_tool s"
    using cur len by simp
  also have "\<dots> = hold (tools s ! current_tool s)"
    using cur by (simp add: mh)
  finally have hd: "hold (tools s1 ! current_tool s1) = hold (tools s ! current_tool s)"
    using c1 by simp
  from update_trigger_held[OF ok1 dn p]
  obtain s2 c2 where t: "update_trigger tk s1 = Inr (s2, c2)" and ok2: "app_ok s2"
    and f: "button_change s2" "last_trigger s2 = Some l"
      "config s2 = config s1" "sleep_timer s2 = sleep_timer s1" "sleep_mode s2 = sleep_mode s1"
      "is_simulated s2 = is_simulated s1"
      "map hold (tools s2) = map hold (tools s1)"
      "dims c2 = 0"
      "(if now tk > h + tool_change_timeout (config s1)
            \<and> (hold (tools s1 ! current_tool s1) \<and> \<not> was_changing_tool s1
                 \<longrightarrow> now tk - l < 0.5 + tool_change_timeout (config s1))
         then switches c2 = 1 \<and> trigger_hold s2 = Some (now tk) \<and> was_changing_tool s2
              \<and> current_tool s2 = (current_tool s1 + 1) mod length (tools s1)
         else switches c2 = 0 \<and> trigger_hold s2 = Some h
              \<and> was_changing_tool s2 = was_changing_tool s1
              \<and> current_tool s2 = current_tool s1)"
    by blast
  from update_from_trigger[OF r q t]
  obtain s' c hw where u: "update tk s = Inr (s', c)"
    and e: "s' = s2\<lparr>sleep_mode := sleep_mode s2 \<or> now tk > sleep_timer s2,
               screen_sleep := (if now tk > sleep_timer s2 \<and> \<not> sleep_mode s2 then True
                                else screen_sleep s2),
               hardware := hw\<rparr>"
    and cs: "switches c = switches c2"
     "dims c = dims c2 + (if now tk > sleep_timer s2 \<and> \<not> sleep_mode s2 then 1 else 0)"
    by blast
  have ok': "app_ok s'" using ok2 by (simp add: e)
  have f9: "(if now tk > h + tool_change_timeout (config s)
            \<and> (hold (tools s ! current_tool s) \<and> \<not> was_changing_tool s
                 \<longrightarrow> now tk - l < 0.5 + tool_change_timeout (config s))
         then switches c2 = 1 \<and> trigger_hold s2 = Some (now tk) \<and> was_changing_tool s2
              \<and> current_tool s2 = (current_tool s + 1) mod length (tools s)
         else switches c2 = 0 \<and> trigger_hold s2 = Some h
              \<and> was_changing_tool s2 = was_changing_tool s
              \<and> current_tool s2 = current_tool s)"
    using f(9) unfolding hd len by (simp add: e1)
  show ?thesis
    unfolding u using ok' f(1-8) f9 cs mh by (simp add: e e1)
qed

lemma update_idle:
  assumes ok: "app_ok s" and dn: "\<not> trigger_down tk" and bc: "\<not> button_change s"
  shows "\<exists>s' c. update tk s = Inr (s', c) \<and> app_ok s'
     \<and> \<not> button_change s' \<and> last_trigger s' = last_trigger s
     \<and> trigger_hold s' = trigger_hold s \<and> was_changing_tool s' = was_changing_tool s
     \<and> current_tool s' = current_tool s
     \<and> config s' = config s \<and> sleep_timer s' = sleep_timer s
     \<and> (sleep_mode s' \<longleftrightarrow> sleep_mode s \<or> now tk > sleep_timer s)
     \<and> dims c = (if now tk > sleep_timer s \<and> \<not> sleep_mode s then 1 else 0)
     \<and> is_simulated s' = is_simulated s
     \<and> map hold (tools s') = map hold (tools s)
     \<and> switches c = 0"
proof -
  obtain s1 c1 ts where r: "update_render tk s = Inr (s1, c1)" and ok1: "app_ok s1"
    and mh: "map hold (tools s1) = map hold (tools s)" and e1: "s1 = s\<lparr>tools := ts\<rparr>"
    and q: "switches c1 = 0" "dims c1 = 0"
    using update_render_ok[OF ok, of tk] by metis
  have t: "update_trigger tk s1 = Inr (s1, [])"
    using dn bc by (intro update_trigger_idle) (simp_all add: e1)
  from update_from_trigger[OF r q t]
  obtain s' c hw where u: "update tk s = Inr (s', c)"
    and e: "s' = s1\<lparr>sleep_mode := sleep_mode s1 \<or> now tk > sleep_timer s1,
               screen_sleep := (if now tk > sleep_timer s1 \<and> \<not> sleep_mode s1 then True
                                else screen_sleep s1),
               hardware := hw\<rparr>"
    and cs: "switches c = switches []"
     "dims c = dims [] + (if now tk > sleep_timer s1 \<and> \<not> sleep_mode s1 then 1 else 0)"
    by blast
  have ok': "app_ok s'" using ok1 by (simp add: e)
  have tl: "tools s' = ts" by (simp add: e e1)
  have mh': "map hold (tools s') = map hold (tools s)" using mh by (simp add: tl e1)
  show ?thesis
    unfolding u using ok' cs bc mh' by (simp add: e e1)
qed

lemma hold_current:
  "current_tool s < length (tools s) \<Longrightarrow>
     hold (tools s ! current_tool s) = map hold (tools s) ! current_tool s"
  by simp

lemma update_noedge:
  assumes ok: "app_ok s" and ne: "trigger_down tk = button_change s"
  shows "\<exists>s' c. update tk s = Inr (s', c) \<and> app_ok s'
     \<and> button_change s' = button_change s \<and> last_trigger s' = last_trigger s
     \<and> config s' = config s \<and> sleep_timer s' = sleep_timer s
     \<and> (sleep_mode s' \<longleftrightarrow> sleep_mode s \<or> now tk > sleep_timer s)
     \<and> dims c = (if now tk > sleep_timer s \<and> \<not> sleep_mode s then 1 else 0)
     \<and> is_simulated s' = is_simulated s
     \<and> map hold (tools s') = map hold (tools s)
     \<and> switches c \<le> 1"
proof (cases "button_change s")
  case True
  then obtain h l where th: "trigger_hold s = Some h" and lt: "last_trigger s = Some l"
    using ok by (auto simp: app_ok_def)
  from True ne have dn: "trigger_down tk" by simp
  from update_held[OF ok dn True th lt]
  obtain s' c where u: "update tk s = Inr (s', c)" and ok': "app_ok s'"
    and f: "button_change s'" "last_trigger s' = Some l"
      "config s' = config s" "sleep_timer s' = sleep_timer s"
      "sleep_mode s' \<longleftrightarrow> sleep_mode s \<or> now tk > sleep_timer s"
      "dims c = (if now tk > sleep_timer s \<and> \<not> sleep_mode s then 1 else 0)"
      "is_simulated s' = is_simulated s"
      "map hold (tools s') = map hold (tools s)"
    and sw: "(if now tk > h + tool_change_timeout (config s)
            \<and> (hold (tools s ! current_tool s) \<and> \<not> was_changing_tool s
                 \<longrightarrow> now tk - l < 0.5 + tool_change_timeout (config s))
         then switches c = 1 \<and> trigger_hold s' = Some (now tk) \<and> was_changing_tool s'
              \<and> current_tool s' = (current_tool s + 1) mod length (tools s)
         else switches c = 0 \<and> trigger_hold s' = Some h
              \<and> was_changing_tool s' = was_changing_tool s
              \<and> current_tool s' = current_tool s)"
    by blast
  have "switches c \<le> 1" using sw by (simp split: if_splits)
  then show ?thesis unfolding u using ok' f True lt by simp
next
  case False
  from False ne have dn: "\<not> trigger_down tk" by simp
  from update_idle[OF ok dn False] show ?thesis using False by auto
qed

lemma update_total:
  assumes ok: "app_ok s"
  shows "\<exists>s' c. update tk s = Inr (s', c) \<and> app_ok s' \<and> config s' = config s
     \<and> is_simulated s' = is_simulated s
     \<and> map hold (tools s') = map hold (tools s)
     \<and> switches c \<le> 1 \<and> dims c \<le> 1"
proof (cases "trigger_down tk = button_change s")
  case True
  from update_noedge[OF ok True] show ?thesis by auto
next
  case False
  from update_edge[OF ok False] show ?thesis by auto
qed

lemma run_total:
  "app_ok s \<Longrightarrow> \<exists>s' cs. run s tks = Inr (s', cs) \<and> app_ok s' \<and> config s' = config s
      \<and> map hold (tools s') = map hold (tools s)
      \<and> length cs = length tks \<and> (\<forall>c\<in>set cs. switches c \<le> 1 \<and> dims c \<le> 1)"
proof (induction tks arbitrary: s)
  case Nil
  then show ?case by simp
next
  case (Cons tk tks)
  from update_total[OF Cons.prems, of tk]
  obtain s1 c where u: "update tk s = Inr (s1, c)" and ok1: "app_ok s1"
    and f: "config s1 = config s" "map hold (tools s1) = map hold (tools s)"
       "switches c \<le> 1" "dims c \<le> 1"
    by blast
  from Cons.IH[OF ok1]
  obtain s' cs where r: "run s1 tks = Inr (s', cs)" and g: "app_ok s'" "config s' = config s1"
      "map hold (tools s') = map hold (tools s1)"
      "length cs = length tks" "\<forall>c\<in>set cs. switches c \<le> 1 \<and> dims c \<le> 1"
    by blast
  show ?case using u r f g by simp
qed

lemma run_append:
  "run s (xs @ ys) =
     (case run s xs of
        Inl e \<Rightarrow> Inl e
      | Inr (s1, cs1) \<Rightarrow>
          (case run s1 ys of
             Inl e \<Rightarrow> Inl e
           | Inr (s2, cs2) \<Rightarrow> Inr (s2, cs1 @ cs2)))"
  by (induction xs arbitrary: s) (auto split: sum.splits prod.splits)

lemma held_run_quiet:
  assumes "app_ok s" "button_change s" "trigger_hold s = Some h" "last_trigger s = Some l"
    and "\<forall>tk\<in>set tks. trigger_down tk
           \<and> \<not> (now tk > h + tool_change_timeout (config s)
                \<and> (hold (tools s ! current_tool s) \<and> \<not> was_changing_tool s
                      \<longrightarrow> now tk - l < 0.5 + tool_change_timeout (config s)))"
  shows "\<exists>s' cs. run s tks = Inr (s', cs) \<and> app_ok s' \<and> button_change s'
     \<and> trigger_hold s' = Some h \<and> last_trigger s' = Some l \<and> config s' = config s
     \<and> was_changing_tool s' = was_changing_tool s \<and> current_tool s' = current_tool s
     \<and> map hold (tools s') = map hold (tools s)
     \<and> map switches cs = replicate (length tks) 0"
  using assms
proof (induction tks arbitrary: s)
  case Nil
  then show ?case by simp
next
  case (Cons tk tks)
  have dn: "trigger_down tk" using Cons.prems(5) by simp
  have nd: "\<not> (now tk > h + tool_change_timeout (config s)
                \<and> (hold (tools s ! current_tool s) \<and> \<not> was_changing_tool s
                      \<longrightarrow> now tk - l < 0.5 + tool_change_timeout (config s)))"
    using Cons.prems(5) by simp
  from update_held[OF Cons.prems(1) dn Cons.prems(2,3,4)] nd
  obtain s1 c where u: "update tk s = Inr (s1, c)" and ok1: "app_ok s1"
    and f: "button_change s1" "last_trigger s1 = Some l" "config s1 = config s"
       "map hold (tools s1) = map hold (tools s)"
       "switches c = 0" "trigger_hold s1 = Some h"
       "was_changing_tool s1 = was_changing_tool s" "current_tool s1 = current_tool s"
    by (auto split: if_splits)
  have cur: "current_tool s < length (tools s)" using Cons.prems(1) by (simp add: app_ok_def)
  have cur1: "current_tool s1 < length (tools s1)" using ok1 by (simp add: app_ok_def)
  have hd: "hold (tools s1 ! current_tool s1) = hold (tools s ! current_tool s)"
    using hold_current[OF cur] hold_current[OF cur1] f(4,8) by simp
  have rest: "\<forall>tk\<in>set tks. trigger_down tk
           \<and> \<not> (now tk > h + tool_change_timeout (config s1)
                \<and> (hold (tools s1 ! current_tool s1) \<and> \<not> was_changing_tool s1
                      \<longrightarrow> now tk - l < 0.5 + tool_change_timeout (config s1)))"
    using Cons.prems(5) unfolding hd f(3) f(7) by simp
  from Cons.IH[OF ok1 f(1) f(6) f(2) rest]
  obtain s' cs where r: "run s1 tks = Inr (s', cs)" and g: "app_ok s'" "button_change s'"
     "trigger_hold s' = Some h" "last_trigger s' = Some l" "config s' = config s1"
     "was_changing_tool s' = was_changing_tool s1" "current_tool s' = current_tool s1"
     "map hold (tools s') = map hold (tools s1)"
     "map switches cs = replicate (length tks) 0"
    by blast
  show ?case using u r f g by simp
qed

lemma held_first_switch:
  assumes "app_ok s" "button_change s" "trigger_hold s = Some h"
    and "\<forall>tk\<in>set tks. trigger_down tk"
    and "run s tks = Inr (s', cs)"
    and "j < length tks" "switches (cs ! j) \<noteq> 0" "\<forall>k<j. switches (cs ! k) = 0"
  shows "now (tks ! j) > h + tool_change_timeout (config s)"
  using assms
proof (induction tks arbitrary: s cs j)
  case Nil
  then show ?case by simp
next
  case (Cons tk tks)
  obtain l where lt: "last_trigger s = Some l" using Cons.prems(1) by (auto simp: app_ok_def)
  have dn: "trigger_down tk" using Cons.prems(4) by simp
  from update_held[OF Cons.prems(1) dn Cons.prems(2,3) lt]
  obtain s1 c where u: "update tk s = Inr (s1, c)" and ok1: "app_ok s1"
    and f: "button_change s1" "config s1 = config s"
    and sw: "(if now tk > h + tool_change_timeout (config s)
            \<and> (hold (tools s ! current_tool s) \<and> \<not> was_changing_tool s
                 \<longrightarrow> now tk - l < 0.5 + tool_change_timeout (config s))
         then switches c = 1 \<and> trigger_hold s1 = Some (now tk) \<and> was_changing_tool s1
              \<and> current_tool s1 = (current_tool s + 1) mod length (tools s)
         else switches c = 0 \<and> trigger_hold s1 = Some h
              \<and> was_changing_tool s1 = was_changing_tool s
              \<and> current_tool s1 = current_tool s)"
    by blast
  obtain cs1 where r: "run s1 tks = Inr (s', cs1)" and cs: "cs = c # cs1"
    using Cons.prems(5) u by (auto split: sum.splits prod.splits)
  show ?case
  proof (cases j)
    case 0
    then have "switches c \<noteq> 0" using Cons.prems(7) cs by simp
    then show ?thesis using sw 0 by (simp split: if_splits)
  next
    case (Suc j')
    have c0: "switches c = 0" using Cons.prems(8) cs Suc by auto
    then have th1: "trigger_hold s1 = Some h" using sw by (simp split: if_splits)
    have "now (tks ! j') > h + tool_change_timeout (config s1)"
    proof (rule Cons.IH[OF ok1 f(1) th1 _ r])
      show "\<forall>tk\<in>set tks. trigger_down tk" using Cons.prems(4) by simp
      show "j' < length tks" using Cons.prems(6) Suc by simp
      show "switches (cs1 ! j') \<noteq> 0" using Cons.prems(7) cs Suc by simp
      show "\<forall>k<j'. switches (cs1 ! k) = 0" using Cons.prems(8) cs Suc by auto
    qed
    then show ?thesis using Suc f(2) by simp
  qed
qed

lemma held_gap:
  assumes "app_ok s" "button_change s"
    and "\<forall>tk\<in>set tks. trigger_down tk"
    and "run s tks = Inr (s', cs)"
    and "i < j" "j < length tks" "switches (cs ! i) \<noteq> 0" "switches (cs ! j) \<noteq> 0"
    and "\<forall>k. i < k \<and> k < j \<longrightarrow> switches (cs ! k) = 0"
  shows "now (tks ! j) > now (tks ! i) + tool_change_timeout (config s)"
  using assms
proof (induction tks arbitrary: s cs i j)
  case Nil
  then show ?case by simp
next
  case (Cons tk tks)
  obtain h l where th: "trigger_hold s = Some h" and lt: "last_trigger s = Some l"
    using Cons.prems(1,2) by (auto simp: app_ok_def)
  have dn: "trigger_down tk" using Cons.prems(3) by simp
  from update_held[OF Cons.prems(1) dn Cons.prems(2) th lt]
  obtain s1 c where u: "update tk s = Inr (s1, c)" and ok1: "app_ok s1"
    and f: "button_change s1" "config s1 = config s"
    and sw: "(if now tk > h + tool_change_timeout (config s)
            \<and> (hold (tools s ! current_tool s) \<and> \<not> was_changing_tool s
                 \<longrightarrow> now tk - l < 0.5 + tool_change_timeout (config s))
         then switches c = 1 \<and> trigger_hold s1 = Some (now tk) \<and> was_changing_tool s1
              \<and> current_tool s1 = (current_tool s + 1) mod length (tools s)
         else switches c = 0 \<and> trigger_hold s1 = Some h
              \<and> was_changing_tool s1 = was_changing_tool s
              \<and> current_tool s1 = current_tool s)"
    by blast
  obtain cs1 where r: "run s1 tks = Inr (s', cs1)" and cs: "cs = c # cs1"
    using Cons.prems(4) u by (auto split: sum.splits prod.splits)
  obtain j' where j: "j = Suc j'" using Cons.prems(5) by (cases j) auto
  have all: "\<forall>tk\<in>set tks. trigger_down tk" using Cons.prems(3) by simp
  have jl: "j' < length tks" using Cons.prems(6) j by simp
  have sj: "switches (cs1 ! j') \<noteq> 0" using Cons.prems(8) cs j by simp
  show ?case
  proof (cases i)
    case 0
    then have "switches c \<noteq> 0" using Cons.prems(7) cs by simp
    then have th1: "trigger_hold s1 = Some (now tk)" using sw by (simp split: if_splits)
    have q: "\<forall>k<j'. switches (cs1 ! k) = 0"
    proof (intro allI impI)
      fix k assume "k < j'"
      then have "i < Suc k \<and> Suc k < j" using 0 j by simp
      then have "switches (cs ! Suc k) = 0" using Cons.prems(9) by blast
      then show "switches (cs1 ! k) = 0" using cs by simp
    qed
    from held_first_switch[OF ok1 f(1) th1 all r jl sj q]
    show ?thesis using 0 j f(2) by simp
  next
    case (Suc i')
    have "now (tks ! j') > now (tks ! i') + tool_change_timeout (config s1)"
    proof (rule Cons.IH[OF ok1 f(1) all r _ jl _ sj])
      show "i' < j'" using Cons.prems(5) Suc j by simp
      show "switches (cs1 ! i') \<noteq> 0" using Cons.prems(7) cs Suc by simp
      show "\<forall>k. i' < k \<and> k < j' \<longrightarrow> switches (cs1 ! k) = 0"
      proof (intro allI impI)
        fix k assume "i' < k \<and> k < j'"
        then have "i < Suc k \<and> Suc k < j" using Suc j by simp
        then have "switches (cs ! Suc k) = 0" using Cons.prems(9) by blast
        then show "switches (cs1 ! k) = 0" using cs by simp
      qed
    qed
    then show ?thesis using Suc j f(2) by simp
  qed
qed

lemma no_edge_run_dims:
  assumes "app_ok s" "\<forall>tk\<in>set tks. trigger_down tk = button_change s"
  shows "\<exists>s' cs. run s tks = Inr (s', cs)
     \<and> sum_list (map dims cs)
         = (if \<not> sleep_mode s \<and> (\<exists>tk\<in>set tks. now tk > sleep_timer s) then 1 else 0)
     \<and> sleep_timer s' = sleep_timer s \<and> button_change s' = button_change s
     \<and> (sleep_mode s' \<longleftrightarrow> sleep_mode s \<or> (\<exists>tk\<in>set tks. now tk > sleep_timer s))"
  using assms
proof (induction tks arbitrary: s)
  case Nil
  then show ?case by simp
next
  case (Cons tk tks)
  have ne: "trigger_down tk = button_change s" using Cons.prems(2) by simp
  from update_noedge[OF Cons.prems(1) ne]
  obtain s1 c where u: "update tk s = Inr (s1, c)" and ok1: "app_ok s1"
    and f: "button_change s1 = button_change s" "sleep_timer s1 = sleep_timer s"
     "sleep_mode s1 \<longleftrightarrow> sleep_mode s \<or> now tk > sleep_timer s"
     "dims c = (if now tk > sleep_timer s \<and> \<not> sleep_mode s then 1 else 0)"
    by blast
  have rest: "\<forall>tk\<in>set tks. trigger_down tk = button_change s1"
    using Cons.prems(2) f(1) by simp
  from Cons.IH[OF ok1 rest]
  obtain s' cs where r: "run s1 tks = Inr (s', cs)"
    and g: "sum_list (map dims cs)
         = (if \<not> sleep_mode s1 \<and> (\<exists>tk\<in>set tks. now tk > sleep_timer s1) then 1 else 0)"
      "sleep_timer s' = sleep_timer s1" "button_change s' = button_change s1"
      "sleep_mode s' \<longleftrightarrow> sleep_mode s1 \<or> (\<exists>tk\<in>set tks. now tk > sleep_timer s1)"
    by blast
  show ?case using u r f g by auto
qed

lemma ex_app_init: "App_init ex_acfg True ex_font 1000 = Inr ex_app"
  by (simp add: App_init_def ex_app_def ex_acfg_def ex_hold_cfg_def ex_plain_cfg_def
      Tool_init_def load_content_def reset_def stop_playbacks_def update_description_def
      endswith_def MAX_TOOLS_def ex_font_def ex_hold_tool_def ex_plain_tool_def Let_def)

lemma ex_app_ok: "app_ok ex_app"
  by (simp add: app_ok_def tool_ok_def ex_app_def ex_hold_tool_def ex_plain_tool_def screen_width_def)

lemmas ex_defs = ex_app_def ex_acfg_def ex_hold_cfg_def ex_plain_cfg_def ex_tick_def
  ex_hold_tool_def ex_plain_tool_def ex_font_def

lemmas op_defs = update_def update_render_def update_trigger_def update_sleep_def
  screen_update_def GPHardware_update_def next_tool_def render_def trigger_def loop_def
  play_sound_def select_sound_def manage_playbacks_def pulses_def flash_led_def spin_motor_def
  reset_def stop_playbacks_def update_description_def x_pos_def py_int_def py_fmod_def
  blend_factor_def YELLOW_FADE_TIME_def screen_width_def Let_def

lemma ex_held_app_ok: "app_ok ex_held_app"
  using ex_app_ok by (simp add: app_ok_def ex_held_app_def)

lemma render_steady:
  assumes "render tm F t = Inr (t', out)" "init_timer t = None"
  shows "init_timer t' = None \<and> (\<forall>b x y. PasteTitle b x y \<in> set out \<longrightarrow> b = None)
         \<and> loaded t' \<and> text_cache t' = text_cache t"
  using assms
  by (auto simp: render_def Let_def split: if_splits option.splits)

lemma render_total:
  assumes "loaded t" "text_cache t = Some W" "W + F div 2 \<noteq> 0"
  shows "\<exists>t' out. render tm F t = Inr (t', out)"
  using assms by (auto simp: render_def Let_def split: option.splits)

lemma render_n_steady:
  assumes "loaded t" "text_cache t = Some W" "W + F div 2 \<noteq> 0" "init_timer t = None"
  shows "\<exists>t' outs. render_n tms F t = Inr (t', outs) \<and> init_timer t' = None
     \<and> (\<forall>out\<in>set outs. \<forall>b x y. PasteTitle b x y \<in> set out \<longrightarrow> b = None)"
  using assms
proof (induction tms arbitrary: t)
  case Nil
  then show ?case by simp
next
  case (Cons tm tms)
  obtain t1 out where r: "render tm F t = Inr (t1, out)"
    using render_total[OF Cons.prems(1,2,3)] by blast
  from render_steady[OF r Cons.prems(4)]
  have s: "init_timer t1 = None" "\<forall>b x y. PasteTitle b x y \<in> set out \<longrightarrow> b = None"
     "loaded t1" "text_cache t1 = Some W"
    using Cons.prems(2) by auto
  from Cons.IH[OF s(3,4) Cons.prems(3) s(1)]
  obtain t' outs where n: "render_n tms F t1 = Inr (t', outs)" "init_timer t' = None"
     "\<forall>out\<in>set outs. \<forall>b x y. PasteTitle b x y \<in> set out \<longrightarrow> b = None"
    by blast
  show ?case using r n s(2) by auto
qed

lemma Tool_init_fields:
  assumes "cfg_name c = Some nm"
  shows "\<exists>t. Tool_init acfg tm c = Inr t
     \<and> name t = nm
     \<and> hold t = (case cfg_hold c of Some v \<Rightarrow> v | None \<Rightarrow> False)
     \<and> sounds t = (case cfg_sounds c of Some v \<Rightarrow> v | None \<Rightarrow> [])
     \<and> sound_order t = (case cfg_sound_order c of Some v \<Rightarrow> v | None \<Rightarrow> ''random'')
     \<and> sound_replay t = (case cfg_sound_replay c of Some v \<Rightarrow> v | None \<Rightarrow> 0)
     \<and> sound_overlap t = (case cfg_sound_overlap c of Some v \<Rightarrow> v | None \<Rightarrow> True)
     \<and> descriptions t = (case cfg_descriptions c of Some v \<Rightarrow> v | None \<Rightarrow> [])
     \<and> background t = (case cfg_background c of Some v \<Rightarrow> v | None \<Rightarrow> default_background acfg)
     \<and> light_up t = (case cfg_light c of Some v \<Rightarrow> v | None \<Rightarrow> True)
     \<and> motor_spin t = (case cfg_motor c of Some v \<Rightarrow> v | None \<Rightarrow> True)
     \<and> \<not> loaded t"
  using assms
  by (cases "cfg_descriptions c")
     (auto simp: Tool_init_def reset_def stop_playbacks_def update_description_def Let_def)

lemma load_content_fields:
  "load_content fw t = Inr u \<Longrightarrow>
     light_up u = light_up t \<and> motor_spin u = motor_spin t \<and> hold u = hold t \<and> loaded u"
  by (auto simp: load_content_def split: if_splits sum.splits)

lemma pulses_both:
  "light_up t \<Longrightarrow> motor_spin t \<Longrightarrow>
     pulses acfg tm t h =
       (h\<lparr>led_flash_end := Some (tm + flash_duration acfg),
          motor_spin_end := Some (tm + spin_duration acfg)\<rparr>, [SetLed True, SetMotor True])"
  by (simp add: pulses_def flash_led_def spin_motor_def)

lemma trigger_pulses:
  assumes "tool_ok t" "light_up t" "motor_spin t"
  shows "\<exists>t' h' c. trigger acfg tk t h = Inr (t', h', c @ [SetLed True, SetMotor True])
           \<and> led_flash_end h' = Some (now tk + flash_duration acfg)
           \<and> motor_spin_end h' = Some (now tk + spin_duration acfg)"
proof -
  define t1 where "t1 = (if descriptions t \<noteq> [] then
                  let i = (description_selector t + 1) mod length (descriptions t)
                  in update_description (Some (descriptions t ! i)) (t\<lparr>description_selector := i\<rparr>)
                else t)"
  have ok1: "tool_ok t1" "light_up t1" "motor_spin t1"
    using assms by (auto simp: t1_def update_description_def Let_def)
  obtain t2 c2 where p: "(if sounds t1 \<noteq> [] then play_sound (now tk) (rnd tk) t1 else Inr (t1, [])) = Inr (t2, c2)"
    and ok2: "light_up t2" "motor_spin t2"
    using play_sound_ok[OF ok1(1), of "now tk" "rnd tk"] ok1 by (cases "sounds t1 = []") auto
  let ?t3 = "manage_playbacks (is_playing tk) t2"
  have l3: "light_up ?t3" "motor_spin ?t3" using ok2 by (simp_all add: manage_playbacks_def)
  have "trigger acfg tk t h =
      Inr (?t3, h\<lparr>led_flash_end := Some (now tk + flash_duration acfg),
          motor_spin_end := Some (now tk + spin_duration acfg)\<rparr>, c2 @ [SetLed True, SetMotor True])"
    unfolding trigger_def t1_def[symmetric] using p pulses_both[OF l3] by (simp add: Let_def)
  then show ?thesis by simp
qed

lemma init_tools_length:
  "init_tools acfg fw tm i cs = Inr ts \<Longrightarrow> length ts = length cs"
  by (induction cs arbitrary: i ts) (auto split: sum.splits if_splits)

lemma update_render_index:
  "update_render tk s = Inr (s1, c) \<Longrightarrow>
     current_tool s1 = current_tool s \<and> length (tools s1) = length (tools s)"
  by (auto simp: update_render_def split: if_splits sum.splits prod.splits)

lemma next_tool_index:
  assumes "next_tool tm s = Inr (s', c)"
  shows "current_tool s' < length (tools s') \<and> length (tools s') = length (tools s)
         \<and> current_tool s' = (current_tool s + 1) mod length (tools s)"
proof -
  have i: "current_tool s < length (tools s)"
    using assms by (auto simp: next_tool_def split: if_splits)
  then have "0 < length (tools s)" by linarith
  then have "(current_tool s + 1) mod length (tools s) < length (tools s)" by simp
  then show ?thesis using next_tool_ok[OF i, of tm] assms by auto
qed

lemma update_trigger_index:
  assumes i: "current_tool s < length (tools s)" and u: "update_trigger tk s = Inr (s2, c)"
  shows "current_tool s2 < length (tools s2) \<and> length (tools s2) = length (tools s)"
proof (cases "trigger_down tk \<noteq> button_change s")
  case True
  show ?thesis
  proof (cases "trigger_down tk")
    case dn: True
    show ?thesis
    proof (cases "trigger (config s) tk (tools s ! current_tool s) (hardware s)")
      case (Inl e)
      then show ?thesis using u True dn i by (simp add: update_trigger_def)
    next
      case (Inr r)
      obtain t h c0 where r: "r = (t, h, c0)" by (cases r) auto
      show ?thesis
        using u True dn i Inr r
        by (simp add: update_trigger_def Let_def split: if_splits) auto
    qed
  next
    case up: False
    show ?thesis
      using u True up i
      by (simp add: update_trigger_def Let_def split: if_splits) auto
  qed
next
  case False
  show ?thesis
  proof (cases "trigger_down tk \<and> hold (tools s ! current_tool s) \<and> \<not> was_changing_tool s")
    case h: True
    show ?thesis
    proof (cases "loop (config s) tk (tools s ! current_tool s) (hardware s)")
      case (Inl e)
      then show ?thesis using u False h i by (simp add: update_trigger_def)
    next
      case (Inr r)
      obtain t hw c0 where r: "r = (t, hw, c0)" by (cases r) auto
      define s1 where "s1 = s\<lparr>tools := (tools s)[current_tool s := t], hardware := hw\<rparr>"
      have i1: "current_tool s1 < length (tools s1)" "length (tools s1) = length (tools s)"
        using i by (simp_all add: s1_def)
      have eq: "update_trigger tk s =
             (case last_trigger s1 of
                None \<Rightarrow> Inl TypeError
              | Some l \<Rightarrow>
                  if now tk - l < 0.5 + tool_change_timeout (config s1) then
                    (case trigger_hold s1 of
                       None \<Rightarrow> Inl TypeError
                     | Some h0 \<Rightarrow>
                         if now tk > h0 + tool_change_timeout (config s1) then
                           (case next_tool (now tk) (s1\<lparr>trigger_hold := Some (now tk)\<rparr>) of
                              Inl e \<Rightarrow> Inl e
                            | Inr (s2, c2) \<Rightarrow> Inr (s2, c0 @ c2))
                         else Inr (s1, c0))
                  else Inr (s1, c0))"
        using False h i Inr r unfolding s1_def by (simp add: update_trigger_def Let_def)
      show ?thesis
      proof (cases "\<exists>c2. next_tool (now tk) (s1\<lparr>trigger_hold := Some (now tk)\<rparr>) = Inr (s2, c2)")
        case True
        then obtain c2 where "next_tool (now tk) (s1\<lparr>trigger_hold := Some (now tk)\<rparr>) = Inr (s2, c2)"
          by blast
        from next_tool_index[OF this] show ?thesis using i1 by simp
      next
        case nn: False
        have "s2 = s1"
          using u nn unfolding eq
          by (auto split: option.splits if_splits sum.splits prod.splits)
        then show ?thesis using i1 by simp
      qed
    qed
  next
    case nh: False
    show ?thesis
    proof (cases "\<exists>c2. next_tool (now tk) (s\<lparr>trigger_hold := Some (now tk)\<rparr>) = Inr (s2, c2)")
      case True
      then obtain c2 where "next_tool (now tk) (s\<lparr>trigger_hold := Some (now tk)\<rparr>) = Inr (s2, c2)"
        by blast
      from next_tool_index[OF this] show ?thesis by simp
    next
      case nn: False
      have "s2 = s"
        using u nn nh False i
        by (simp add: update_trigger_def split: if_splits)
      then show ?thesis using i by simp
    qed
  qed
qed

lemma update_index:
  assumes "current_tool s < length (tools s)" "update tk s = Inr (s', c)"
  shows "current_tool s' < length (tools s') \<and> length (tools s') = length (tools s)"
proof -
  obtain s1 c1 where r: "update_render tk s = Inr (s1, c1)"
    using assms(2) by (auto simp: update_def split: sum.splits)
  obtain s2 c2 where t: "update_trigger tk s1 = Inr (s2, c2)"
    using assms(2) r by (auto simp: update_def split: sum.splits)
  have i1: "current_tool s1 < length (tools s1)" "length (tools s1) = length (tools s)"
    using update_render_index[OF r] assms(1) by simp_all
  have i2: "current_tool s2 < length (tools s2)" "length (tools s2) = length (tools s)"
    using update_trigger_index[OF i1(1) t] i1(2) by simp_all
  obtain s3 c3 where sl: "update_sleep tk s2 = (s3, c3)" by (cases "update_sleep tk s2") auto
  obtain hw c4 where hu: "GPHardware_update (now tk) (hardware s3) = (hw, c4)"
    by (cases "GPHardware_update (now tk) (hardware s3)") auto
  have s3: "current_tool s3 = current_tool s2 \<and> tools s3 = tools s2"
    using sl by (auto simp: update_sleep_def split: if_splits)
  have "s' = s3\<lparr>hardware := hw\<rparr>"
    using assms(2) r t sl hu by (simp add: update_def Let_def)
  then have "current_tool s' = current_tool s2 \<and> tools s' = tools s2"
    using s3 by simp
  then show ?thesis using i2 by simp
qed

lemma next_tool_n_index:
  assumes "current_tool s < length (tools s)"
  shows "\<exists>s'. next_tool_n s tms = Inr s' \<and> length (tools s') = length (tools s)
           \<and> current_tool s' = (current_tool s + length tms) mod length (tools s)"
  using assms
proof (induction tms arbitrary: s)
  case Nil
  then show ?case by simp
next
  case (Cons tm tms)
  from next_tool_ok[OF Cons.prems, of tm]
  obtain s1 c where n: "next_tool tm s = Inr (s1, c)"
    and f: "current_tool s1 = (current_tool s + 1) mod length (tools s)"
       "length (tools s1) = length (tools s)"
    by blast
  have "0 < length (tools s)" using Cons.prems by linarith
  then have i1: "current_tool s1 < length (tools s1)" using f by simp
  from Cons.IH[OF i1]
  obtain s' where r: "next_tool_n s1 tms = Inr s'" "length (tools s') = length (tools s1)"
     "current_tool s' = (current_tool s1 + length tms) mod length (tools s1)"
    by blast
  have "((current_tool s + 1) mod length (tools s) + length tms) mod length (tools s)
        = (current_tool s + length (tm # tms)) mod length (tools s)"
    by (simp add: mod_add_left_eq)
  then show ?case using n r f by simp
qed

lemma dims_mem: "SetSleep True \<in> set c \<longleftrightarrow> dims c \<noteq> 0"
  by (simp add: dims_def count_list_0_iff)

lemma switches_mem: "PlayNextItem \<in> set c \<longleftrightarrow> switches c \<noteq> 0"
  by (simp add: switches_def count_list_0_iff)

lemma ex_plain_held_app_ok: "app_ok ex_plain_held_app"
  using ex_app_ok by (simp add: app_ok_def ex_plain_held_app_def ex_app_def)

lemma ex_held_run:
  "switch_counts (run ex_plain_held_app ex_held_ticks) = Some [0, 1, 0, 1, 0]"
  by (simp add: switch_counts_def ex_plain_held_app_def ex_held_ticks_def ex_defs op_defs
        switches_def)

lemma ex_tapped_app_ok: "app_ok ex_tapped_app"
  using ex_app_ok by (simp add: app_ok_def ex_tapped_app_def ex_app_def)

lemma run_Cons_Inr:
  "update tk s = Inr (s1, c) \<Longrightarrow> run s1 tks = Inr (s2, cs) \<Longrightarrow> run s (tk # tks) = Inr (s2, c # cs)"
  by simp

lemma run_append_Inr:
  "run s xs = Inr (s1, cs1) \<Longrightarrow> run s1 ys = Inr (s2, cs2) \<Longrightarrow> run s (xs @ ys) = Inr (s2, cs1 @ cs2)"
  by (simp add: run_append)

lemma render_unloaded: "\<not> loaded t \<Longrightarrow> render tm F t = Inl AssertionError"
  by (simp add: render_def)

lemma Tool_init_unloaded: "Tool_init acfg tm c = Inr t \<Longrightarrow> \<not> loaded t"
  by (auto simp: Tool_init_def Let_def split: option.splits)

lemma init_tools_loaded:
  "init_tools acfg fw tm i cs = Inr ts \<Longrightarrow>
     \<forall>k<length ts. (loaded (ts ! k) \<longleftrightarrow> i + k < MAX_TOOLS)
                    \<and> (i + k < MAX_TOOLS \<longrightarrow> tool_ok (ts ! k))"
proof (induction cs arbitrary: i ts)
  case Nil
  then show ?case by simp
next
  case (Cons c cs)
  obtain t where t: "Tool_init acfg tm c = Inr t"
    using Cons.prems by (auto split: sum.splits)
  obtain t1 where t1: "(if i < MAX_TOOLS then load_content fw t else Inr t) = Inr t1"
    using Cons.prems t by (auto split: sum.splits)
  obtain ts1 where r: "init_tools acfg fw tm (Suc i) cs = Inr ts1" and e: "ts = t1 # ts1"
    using Cons.prems t t1 by (auto split: sum.splits)
  have h: "(loaded t1 \<longleftrightarrow> i < MAX_TOOLS) \<and> (i < MAX_TOOLS \<longrightarrow> tool_ok t1)"
  proof (cases "i < MAX_TOOLS")
    case True
    then have l: "load_content fw t = Inr t1" using t1 by simp
    show ?thesis using True load_content_ok[OF l] load_content_fields[OF l] by simp
  next
    case False
    then have "t1 = t" using t1 by simp
    then show ?thesis using False Tool_init_unloaded[OF t] by simp
  qed
  show ?case
  proof (intro allI impI)
    fix k assume k: "k < length ts"
    show "(loaded (ts ! k) \<longleftrightarrow> i + k < MAX_TOOLS) \<and> (i + k < MAX_TOOLS \<longrightarrow> tool_ok (ts ! k))"
    proof (cases k)
      case 0
      then show ?thesis using h e by simp
    next
      case (Suc k')
      then have "k' < length ts1" using k e by simp
      then show ?thesis using Cons.IH[OF r] Suc e by simp
    qed
  qed
qed

lemma App_init_tools:
  assumes "App_init acfg sim fw tm = Inr s"
  shows "length (tools s) = length (cfg_tools acfg)
       \<and> (\<forall>k<length (tools s). (loaded (tools s ! k) \<longleftrightarrow> k < MAX_TOOLS)
                                 \<and> (k < MAX_TOOLS \<longrightarrow> tool_ok (tools s ! k)))
       \<and> current_tool s = 0 \<and> last_trigger s = Some 0 \<and> \<not> button_change s"
proof -
  obtain ts where t: "init_tools acfg fw tm 0 (cfg_tools acfg) = Inr ts"
    and s: "tools s = ts" "current_tool s = 0" "last_trigger s = Some 0" "\<not> button_change s"
    using assms by (auto simp: App_init_def split: sum.splits)
  show ?thesis
    using init_tools_length[OF t] init_tools_loaded[OF t] s by simp
qed

lemma App_init_ok:
  assumes "App_init acfg sim fw tm = Inr s" "cfg_tools acfg \<noteq> []"
    "length (cfg_tools acfg) \<le> MAX_TOOLS"
  shows "app_ok s"
proof -
  note f = App_init_tools[OF assms(1)]
  have "\<forall>k<length (tools s). tool_ok (tools s ! k)"
    using f assms(3) by auto
  then have "list_all tool_ok (tools s)" by (simp add: list_all_length)
  then show ?thesis using f assms(2) by (simp add: app_ok_def)
qed

lemma app_ok_loaded: "app_ok s \<Longrightarrow> list_all loaded (tools s)"
  by (auto simp: app_ok_def list_all_iff tool_ok_def)

lemma next_tool_n_ok:
  assumes "app_ok s"
  shows "\<exists>s'. next_tool_n s tms = Inr s' \<and> app_ok s'"
  using assms
proof (induction tms arbitrary: s)
  case Nil
  then show ?case by simp
next
  case (Cons tm tms)
  have i: "current_tool s < length (tools s)" using Cons.prems by (simp add: app_ok_def)
  from next_tool_ok[OF i, of tm]
  obtain s1 c where n: "next_tool tm s = Inr (s1, c)"
    and f: "current_tool s1 = (current_tool s + 1) mod length (tools s)"
       "length (tools s1) = length (tools s)"
       "list_all tool_ok (tools s) \<longrightarrow> list_all tool_ok (tools s1)"
       "s1 = s\<lparr>tools := tools s1, current_tool := current_tool s1, was_changing_tool := True\<rparr>"
    by blast
  have "0 < length (tools s)" using i by linarith
  then have i1: "current_tool s1 < length (tools s1)" using f(1,2) by simp
  have g: "last_trigger s1 = last_trigger s" "button_change s1 = button_change s"
     "trigger_hold s1 = trigger_hold s"
    by (subst f(4), simp)+
  have ok1: "app_ok s1" using Cons.prems i1 f(3) g by (simp add: app_ok_def)
  from Cons.IH[OF ok1] show ?case using n by simp
qed

lemma update_no_tools:
  assumes "tools s = []"
  shows "update tk s = Inl IndexError \<or> (\<exists>s' c. update tk s = Inr (s', c) \<and> tools s' = [])"
proof (cases "update_render tk s")
  case (Inl e)
  then have "e = IndexError" using assms by (auto simp: update_render_def split: if_splits)
  then show ?thesis using Inl by (simp add: update_def)
next
  case (Inr r1)
  obtain s1 c1 where r1: "r1 = (s1, c1)" by (cases r1) auto
  have s1: "s1 = s" using Inr r1 assms by (auto simp: update_render_def split: if_splits)
  show ?thesis
  proof (cases "update_trigger tk s")
    case (Inl e)
    then have "e = IndexError"
      using assms by (auto simp: update_trigger_def Let_def split: if_splits)
    then show ?thesis using Inl Inr r1 s1 by (simp add: update_def)
  next
    case tr: (Inr r2)
    obtain s2 c2 where r2: "r2 = (s2, c2)" by (cases r2) auto
    have t2: "tools s2 = []"
      using tr r2 assms by (auto simp: update_trigger_def Let_def split: if_splits)
    obtain s3 c3 where sl: "update_sleep tk s2 = (s3, c3)" by (cases "update_sleep tk s2") auto
    obtain hw c4 where hu: "GPHardware_update (now tk) (hardware s3) = (hw, c4)"
      by (cases "GPHardware_update (now tk) (hardware s3)") auto
    have t3: "tools s3 = []" using sl t2 by (auto simp: update_sleep_def split: if_splits)
    have "update tk s = Inr (s3\<lparr>hardware := hw\<rparr>,
              c1 @ c2 @ c3 @ c4 @ screen_update (s3\<lparr>hardware := hw\<rparr>))"
      using Inr r1 s1 tr r2 sl hu by (simp add: update_def Let_def)
    then show ?thesis using t3 by simp
  qed
qed

lemma run_no_tools:
  "tools s = [] \<Longrightarrow>
     run s tks = Inl IndexError \<or> (\<exists>s' cs. run s tks = Inr (s', cs) \<and> tools s' = [])"
proof (induction tks arbitrary: s)
  case Nil
  then show ?case by simp
next
  case (Cons tk tks)
  from update_no_tools[OF Cons.prems, of tk]
  show ?case
  proof
    assume "update tk s = Inl IndexError"
    then show ?thesis by simp
  next
    assume "\<exists>s' c. update tk s = Inr (s', c) \<and> tools s' = []"
    then obtain s1 c where u: "update tk s = Inr (s1, c)" and e: "tools s1 = []" by blast
    from Cons.IH[OF e] show ?thesis
    proof
      assume "run s1 tks = Inl IndexError"
      then show ?thesis using u by simp
    next
      assume "\<exists>s' cs. run s1 tks = Inr (s', cs) \<and> tools s' = []"
      then obtain s' cs where "run s1 tks = Inr (s', cs)" "tools s' = []" by blast
      then show ?thesis using u by simp
    qed
  qed
qed

section \<open>The claims\<close>

subsection \<open>C1: sound selection in turn\<close>

text \<open>
  C1, as the code has it. The order the code recognises for playing the sounds in turn
  is the string \<open>selective\<close>. For a loaded tool with that order and a non-empty sound
  list, every call of \<^verbatim>\<open>_play_sound\<close> advances the selector to
  \<open>(index + 1) mod len(sounds)\<close> and starts the playback of the loaded sound at that
  index (after stopping the tracked playbacks when overlap is off). With an empty sound
  list \<^verbatim>\<open>trigger\<close> and \<^verbatim>\<open>loop\<close> do not call \<^verbatim>\<open>_play_sound\<close>: no
  sound is played and the selector stays.
\<close>

theorem play_sound_selective:
  assumes "sound_order t = ''selective''" and "snd_objs t = Some ws"
    and "length ws = length (sounds t)"
  shows "(sounds t \<noteq> [] \<longrightarrow>
           (\<exists>t'. play_sound tm r t =
                    Inr (t', (if sound_overlap t then [] else map Stop (playbacks t))
                             @ [Play (ws ! ((sound_selector t + 1) mod length (sounds t)))])
              \<and> sound_selector t' = (sound_selector t + 1) mod length (sounds t)
              \<and> playbacks t' = (if sound_overlap t then playbacks t else [])
                                 @ [ws ! ((sound_selector t + 1) mod length (sounds t))]
              \<and> replay_timer t' = tm + sound_replay t))
       \<and> (sounds t = [] \<longrightarrow>
           (\<exists>t' h' c. trigger acfg tk t h = Inr (t', h', c)
               \<and> sound_selector t' = sound_selector t \<and> (\<forall>w. Play w \<notin> set c))
         \<and> (\<exists>t' h' c. loop acfg tk t h = Inr (t', h', c)
               \<and> sound_selector t' = sound_selector t \<and> (\<forall>w. Play w \<notin> set c)))"
proof (intro conjI impI)
  assume ne: "sounds t \<noteq> []"
  then have "(sound_selector t + 1) mod length (sounds t) < length ws"
    using assms(3) by simp
  then show "\<exists>t'. play_sound tm r t =
                    Inr (t', (if sound_overlap t then [] else map Stop (playbacks t))
                             @ [Play (ws ! ((sound_selector t + 1) mod length (sounds t)))])
              \<and> sound_selector t' = (sound_selector t + 1) mod length (sounds t)
              \<and> playbacks t' = (if sound_overlap t then playbacks t else [])
                                 @ [ws ! ((sound_selector t + 1) mod length (sounds t))]
              \<and> replay_timer t' = tm + sound_replay t"
    using assms ne
    by (simp add: play_sound_def select_sound_def stop_playbacks_def Let_def)
next
  assume e: "sounds t = []"
  show "\<exists>t' h' c. trigger acfg tk t h = Inr (t', h', c)
               \<and> sound_selector t' = sound_selector t \<and> (\<forall>w. Play w \<notin> set c)"
    using e
    by (auto simp: trigger_def update_description_def manage_playbacks_def pulses_def
          flash_led_def spin_motor_def Let_def)
  show "\<exists>t' h' c. loop acfg tk t h = Inr (t', h', c)
               \<and> sound_selector t' = sound_selector t \<and> (\<forall>w. Play w \<notin> set c)"
    using e
    by (auto simp: loop_def manage_playbacks_def pulses_def
          flash_led_def spin_motor_def Let_def)
qed

theorem play_sound_selective_witness:
  "(\<exists>t'. play_sound 1001 0 ex_hold_tool = Inr (t', [Play ''b.wav''])
       \<and> sound_selector t' = 1 \<and> playbacks t' = [''b.wav''] \<and> replay_timer t' = 1001)
   \<and> (\<exists>t' h' c. trigger ex_acfg (ex_tick 1001 True) (ex_silent_tool) (hardware ex_app) = Inr (t', h', c)
       \<and> sound_selector t' = 0 \<and> (\<forall>w. Play w \<notin> set c))"
  using play_sound_selective[of ex_hold_tool "[''a.wav'', ''b.wav'']" 1001 0 ex_acfg "ex_tick 1001 True" "hardware ex_app"]
    play_sound_selective[of ex_silent_tool "[]" 1001 0 ex_acfg "ex_tick 1001 True" "hardware ex_app"]
  by (simp add: ex_hold_tool_def ex_silent_tool_def)

text \<open>
  With the order \<open>sequential\<close> the call selects nothing: the selector does not move
  and nothing is played. Called on an empty sound list with the order \<open>selective\<close>,
  \<^verbatim>\<open>_play_sound\<close> itself divides by zero.
\<close>

theorem play_sound_sequential_counterexample:
  "sound_order ex_sequential_tool = ''sequential''
   \<and> sounds ex_sequential_tool = [''a.wav'', ''b.wav'']
   \<and> play_sound 1001 0 ex_sequential_tool = Inr (ex_sequential_tool, [])
   \<and> sounds ex_silent_tool = []
   \<and> play_sound 1001 0 ex_silent_tool = Inl ZeroDivisionError"
  by (simp add: ex_sequential_tool_def ex_silent_tool_def ex_hold_tool_def play_sound_def select_sound_def)

subsection \<open>C2: the time kept at a release\<close>

text \<open>
  C2, as the code has it. On a release edge \<^verbatim>\<open>_last_trigger\<close> takes the value
  \<^verbatim>\<open>_trigger_hold\<close> had before the edge, and \<^verbatim>\<open>_trigger_hold\<close> is cleared; on a
  press edge \<^verbatim>\<open>_trigger_hold\<close> is stamped with the time of the tick. So after a
  release \<^verbatim>\<open>_last_trigger\<close> is the time the hold began (or of its latest tool
  switch), not the time of the release.
\<close>

theorem release_sets_last_trigger:
  assumes "app_ok s"
  shows "(button_change s \<and> \<not> trigger_down tk \<longrightarrow>
            (\<exists>s' c. update tk s = Inr (s', c) \<and> trigger_hold s \<noteq> None
               \<and> last_trigger s' = trigger_hold s \<and> trigger_hold s' = None))
       \<and> (\<not> button_change s \<and> trigger_down tk \<longrightarrow>
            (\<exists>s' c. update tk s = Inr (s', c) \<and> trigger_hold s' = Some (now tk)
               \<and> last_trigger s' = last_trigger s))"
proof (intro conjI impI)
  assume a: "button_change s \<and> \<not> trigger_down tk"
  then have e: "trigger_down tk \<noteq> button_change s" by simp
  have "trigger_hold s \<noteq> None" using a assms by (simp add: app_ok_def)
  then show "\<exists>s' c. update tk s = Inr (s', c) \<and> trigger_hold s \<noteq> None
               \<and> last_trigger s' = trigger_hold s \<and> trigger_hold s' = None"
    using update_edge[OF assms e] a by auto
next
  assume a: "\<not> button_change s \<and> trigger_down tk"
  then have e: "trigger_down tk \<noteq> button_change s" by simp
  show "\<exists>s' c. update tk s = Inr (s', c) \<and> trigger_hold s' = Some (now tk)
               \<and> last_trigger s' = last_trigger s"
    using update_edge[OF assms e] a by auto
qed

theorem release_sets_last_trigger_witness:
  "(\<exists>s' c. update (ex_tick 1002 False) ex_held_app = Inr (s', c)
       \<and> last_trigger s' = Some 1000 \<and> trigger_hold s' = None)
   \<and> (\<exists>s' c. update (ex_tick 1000 True) ex_app = Inr (s', c)
       \<and> trigger_hold s' = Some 1000 \<and> last_trigger s' = Some 0)"
  using release_sets_last_trigger[OF ex_held_app_ok, of "ex_tick 1002 False"]
    release_sets_last_trigger[OF ex_app_ok, of "ex_tick 1000 True"]
  by (simp add: ex_held_app_def ex_app_def ex_tick_def)

text \<open>A press at 1000 released at 1002 leaves \<^verbatim>\<open>_last_trigger\<close> at 1000.\<close>

theorem last_trigger_release_counterexample:
  "now (ex_tick 1002 False) = 1002
   \<and> map_option last_trigger
        (final_state (run ex_app [ex_tick 1000 True, ex_tick 1002 False])) = Some (Some 1000)"
  by (simp add: final_state_def ex_defs op_defs)

subsection \<open>C7: the ghost copy of the title\<close>

text \<open>
  C7. In \<^verbatim>\<open>Tool.render\<close>, for a title cache of width \<open>W\<close> on a screen of width
  \<open>F\<close> and the scroll position \<open>x = x_pos now F W\<close>, the second copy of the title is
  pasted at \<open>x - W - F div 2\<close> exactly when \<open>x - W - F div 2 + W > 0\<close>, that is exactly
  when \<open>x > F div 2\<close>; and while \<open>W + F div 2\<close> is positive the scroll position is
  \<open>F - floor ((now * 160) mod (W + F div 2))\<close>.
\<close>

theorem render_ghost_iff:
  assumes "render tm F t = Inr (t', out)" and "text_cache t = Some W"
  shows "(PasteTitle (map_option (blend_factor tm) (init_timer t))
            (x_pos tm F W - W - F div 2) (text_y t) \<in> set out
          \<longleftrightarrow> x_pos tm F W - W - F div 2 + W > 0)
       \<and> (x_pos tm F W - W - F div 2 + W > 0 \<longleftrightarrow> x_pos tm F W > F div 2)
       \<and> (0 < W + F div 2 \<longrightarrow>
            x_pos tm F W = F - \<lfloor>py_fmod (tm * 160) (of_int (W + F div 2))\<rfloor>)"
proof -
  have 3: "0 < W + F div 2 \<longrightarrow> x_pos tm F W = F - \<lfloor>py_fmod (tm * 160) (of_int (W + F div 2))\<rfloor>"
    using py_fmod_range[of "of_int (W + F div 2)" "tm * 160"]
    by (auto simp: x_pos_def py_int_def)
  have nz: "W + F div 2 \<noteq> 0" using assms by (auto simp: render_def split: if_splits)
  have 1: "(PasteTitle (map_option (blend_factor tm) (init_timer t))
            (x_pos tm F W - W - F div 2) (text_y t) \<in> set out
          \<longleftrightarrow> x_pos tm F W - W - F div 2 + W > 0)"
    using assms nz
    by (auto simp: render_def Let_def split: if_splits option.splits)
  show ?thesis using 1 3 by auto
qed

theorem render_ghost_iff_witness:
  "render 1000.3 240 ex_hold_tool
     = Inr (ex_hold_tool, [PasteBackground ''bg.png'', PasteTitle (Some (3/5)) 152 10,
                           PasteTitle (Some (3/5)) (- 3) 10])
   \<and> x_pos 1000.3 240 35 = 152 \<and> (0::int) < 152 - 35 - 240 div 2 + 35 \<and> (240::int) div 2 < 152"
proof -
  have r: "render 1000.3 240 ex_hold_tool
     = Inr (ex_hold_tool, [PasteBackground ''bg.png'', PasteTitle (Some (3/5)) 152 10,
                           PasteTitle (Some (3/5)) (- 3) 10])"
    by (simp add: ex_hold_tool_def op_defs)
  have w: "text_cache ex_hold_tool = Some 35" by (simp add: ex_hold_tool_def)
  show ?thesis
    using render_ghost_iff[OF r w] r
    by (simp add: ex_hold_tool_def x_pos_def py_int_def py_fmod_def)
qed

subsection \<open>C8: the fade of the title\<close>

text \<open>
  C8. While the fade timer of a tool is set to \<open>t0\<close>, \<^verbatim>\<open>Tool.render\<close> pastes the
  title blended with the factor \<open>min ((now - t0) / 0.5) 1\<close>; the factor does not decrease
  as time passes and is 1 exactly from 0.5 seconds on. A render with
  \<open>now > t0 + 0.5\<close> clears the timer (an earlier one keeps it), and once the timer is
  clear every later render succeeds, pastes the steady cache only and leaves the
  timer clear.
\<close>

theorem render_fade:
  assumes "render tm F t = Inr (t', out)"
  shows "(\<forall>t0. init_timer t = Some t0 \<longrightarrow>
            (\<forall>b x y. PasteTitle b x y \<in> set out \<longrightarrow> b = Some (min ((tm - t0) / 0.5) 1))
          \<and> (\<exists>x y. PasteTitle (Some (min ((tm - t0) / 0.5) 1)) x y \<in> set out)
          \<and> (tm > t0 + 0.5 \<longrightarrow> init_timer t' = None)
          \<and> (tm \<le> t0 + 0.5 \<longrightarrow> init_timer t' = Some t0))
       \<and> (\<forall>a b t0. a \<le> b \<longrightarrow> blend_factor a t0 \<le> blend_factor b t0)
       \<and> (\<forall>a t0. blend_factor a t0 = min ((a - t0) / 0.5) 1
                  \<and> (blend_factor a t0 = 1 \<longleftrightarrow> a - t0 \<ge> 0.5))
       \<and> (init_timer t' = None \<longrightarrow>
            (\<forall>tms. \<exists>t'' outs. render_n tms F t' = Inr (t'', outs) \<and> init_timer t'' = None
               \<and> (\<forall>out\<in>set outs. \<forall>b x y. PasteTitle b x y \<in> set out \<longrightarrow> b = None)))"
proof (intro conjI allI impI)
  fix t0 b x y
  assume "init_timer t = Some t0" "PasteTitle b x y \<in> set out"
  then show "b = Some (min ((tm - t0) / 0.5) 1)"
    using assms
    by (auto simp: render_def Let_def blend_factor_def YELLOW_FADE_TIME_def
             split: if_splits option.splits)
next
  fix t0 assume i: "init_timer t = Some t0"
  obtain W where w: "text_cache t = Some W"
    using assms by (auto simp: render_def split: if_splits option.splits)
  have "PasteTitle (Some (min ((tm - t0) / 0.5) 1)) (x_pos tm F W) (text_y t) \<in> set out"
    using assms i w
    by (auto simp: render_def Let_def blend_factor_def YELLOW_FADE_TIME_def
             split: if_splits option.splits)
  then show "\<exists>x y. PasteTitle (Some (min ((tm - t0) / 0.5) 1)) x y \<in> set out"
    by blast
next
  fix t0 assume "init_timer t = Some t0" "tm > t0 + 0.5"
  then show "init_timer t' = None"
    using assms
    by (auto simp: render_def Let_def YELLOW_FADE_TIME_def split: if_splits option.splits)
next
  fix t0 assume "init_timer t = Some t0" "tm \<le> t0 + 0.5"
  then show "init_timer t' = Some t0"
    using assms
    by (auto simp: render_def Let_def YELLOW_FADE_TIME_def split: if_splits option.splits)
next
  fix a b t0 :: real assume "a \<le> b"
  then show "blend_factor a t0 \<le> blend_factor b t0" by (rule blend_mono)
next
  fix a t0 :: real
  show "blend_factor a t0 = min ((a - t0) / 0.5) 1"
    by (simp add: blend_factor_def YELLOW_FADE_TIME_def)
  show "(blend_factor a t0 = 1) = (0.5 \<le> a - t0)"
    using blend_sat[of a t0] by simp
next
  fix tms assume n: "init_timer t' = None"
  have l: "loaded t'" using assms by (auto simp: render_def Let_def split: if_splits option.splits)
  obtain W where w: "text_cache t' = Some W" "W + F div 2 \<noteq> 0"
    using assms by (auto simp: render_def Let_def split: if_splits option.splits)
  from render_n_steady[OF l w n]
  show "\<exists>t'' outs. render_n tms F t' = Inr (t'', outs) \<and> init_timer t'' = None
               \<and> (\<forall>out\<in>set outs. \<forall>b x y. PasteTitle b x y \<in> set out \<longrightarrow> b = None)"
    by blast
qed

theorem render_fade_witness:
  "render 1000.6 240 ex_hold_tool
     = Inr (ex_hold_tool\<lparr>init_timer := None\<rparr>,
            [PasteBackground ''bg.png'', PasteTitle (Some 1) 104 10])
   \<and> min ((1000.6 - 1000) / 0.5) (1::real) = 1
   \<and> (\<exists>t'' outs. render_n [1000.7, 1000.8] 240 (ex_hold_tool\<lparr>init_timer := None\<rparr>) = Inr (t'', outs)
         \<and> init_timer t'' = None
         \<and> (\<forall>out\<in>set outs. \<forall>b x y. PasteTitle b x y \<in> set out \<longrightarrow> b = None))"
proof -
  have r: "render 1000.6 240 ex_hold_tool
     = Inr (ex_hold_tool\<lparr>init_timer := None\<rparr>,
            [PasteBackground ''bg.png'', PasteTitle (Some 1) 104 10])"
    by (simp add: ex_hold_tool_def op_defs)
  have n: "init_timer (ex_hold_tool\<lparr>init_timer := None\<rparr>) = None" by simp
  from render_fade[OF r] n
  have "\<forall>tms. \<exists>t'' outs. render_n tms 240 (ex_hold_tool\<lparr>init_timer := None\<rparr>) = Inr (t'', outs)
         \<and> init_timer t'' = None
         \<and> (\<forall>out\<in>set outs. \<forall>b x y. PasteTitle b x y \<in> set out \<longrightarrow> b = None)"
    by blast
  then have a: "\<exists>t'' outs. render_n [1000.7, 1000.8] 240 (ex_hold_tool\<lparr>init_timer := None\<rparr>) = Inr (t'', outs)
         \<and> init_timer t'' = None
         \<and> (\<forall>out\<in>set outs. \<forall>b x y. PasteTitle b x y \<in> set out \<longrightarrow> b = None)"
    by blast
  have m: "min ((1000.6 - 1000) / 0.5) (1::real) = 1" by simp
  show ?thesis using r a m by blast
qed

subsection \<open>C10: the defaults of a tool\<close>

text \<open>
  C10. A tool constructed from a configuration that has a name takes, for each
  optional key that is left out: \<open>hold = False\<close>, no sounds, the sound order
  \<open>random\<close>, \<open>sound_replay = 0\<close>, \<open>sound_overlap = True\<close>, no descriptions,
  \<open>light = True\<close>, \<open>motor = True\<close> and the default background of the application.
  With light and motor left out, every \<^verbatim>\<open>trigger\<close> of the tool, once its content
  is loaded, switches the light and the motor on and sets the end of both pulses.
\<close>

theorem Tool_init_defaults:
  assumes "cfg_name c = Some nm"
  shows "\<exists>t. Tool_init acfg tm c = Inr t
     \<and> (cfg_hold c = None \<longrightarrow> \<not> hold t)
     \<and> (cfg_sounds c = None \<longrightarrow> sounds t = [])
     \<and> (cfg_sound_order c = None \<longrightarrow> sound_order t = ''random'')
     \<and> (cfg_sound_replay c = None \<longrightarrow> sound_replay t = 0)
     \<and> (cfg_sound_overlap c = None \<longrightarrow> sound_overlap t)
     \<and> (cfg_descriptions c = None \<longrightarrow> descriptions t = [])
     \<and> (cfg_light c = None \<longrightarrow> light_up t)
     \<and> (cfg_motor c = None \<longrightarrow> motor_spin t)
     \<and> (cfg_background c = None \<longrightarrow> background t = default_background acfg)
     \<and> (cfg_light c = None \<and> cfg_motor c = None \<longrightarrow>
          (\<forall>fw u tk h. load_content fw t = Inr u \<longrightarrow>
             (\<exists>u' h' out. trigger acfg tk u h = Inr (u', h', out)
                \<and> SetLed True \<in> set out \<and> SetMotor True \<in> set out
                \<and> led_flash_end h' = Some (now tk + flash_duration acfg)
                \<and> motor_spin_end h' = Some (now tk + spin_duration acfg))))"
proof -
  from Tool_init_fields[OF assms, of acfg tm]
  obtain t where i: "Tool_init acfg tm c = Inr t"
     and f: "hold t = (case cfg_hold c of Some v \<Rightarrow> v | None \<Rightarrow> False)"
     "sounds t = (case cfg_sounds c of Some v \<Rightarrow> v | None \<Rightarrow> [])"
     "sound_order t = (case cfg_sound_order c of Some v \<Rightarrow> v | None \<Rightarrow> ''random'')"
     "sound_replay t = (case cfg_sound_replay c of Some v \<Rightarrow> v | None \<Rightarrow> 0)"
     "sound_overlap t = (case cfg_sound_overlap c of Some v \<Rightarrow> v | None \<Rightarrow> True)"
     "descriptions t = (case cfg_descriptions c of Some v \<Rightarrow> v | None \<Rightarrow> [])"
     "background t = (case cfg_background c of Some v \<Rightarrow> v | None \<Rightarrow> default_background acfg)"
     "light_up t = (case cfg_light c of Some v \<Rightarrow> v | None \<Rightarrow> True)"
     "motor_spin t = (case cfg_motor c of Some v \<Rightarrow> v | None \<Rightarrow> True)"
    by blast
  have p: "cfg_light c = None \<and> cfg_motor c = None \<longrightarrow>
          (\<forall>fw u tk h. load_content fw t = Inr u \<longrightarrow>
             (\<exists>u' h' out. trigger acfg tk u h = Inr (u', h', out)
                \<and> SetLed True \<in> set out \<and> SetMotor True \<in> set out
                \<and> led_flash_end h' = Some (now tk + flash_duration acfg)
                \<and> motor_spin_end h' = Some (now tk + spin_duration acfg)))"
  proof (intro impI allI)
    fix fw u tk h
    assume d: "cfg_light c = None \<and> cfg_motor c = None" and l: "load_content fw t = Inr u"
    have "light_up u" "motor_spin u"
      using load_content_fields[OF l] f(8,9) d by simp_all
    from trigger_pulses[OF load_content_ok[OF l] this, of acfg tk h]
    obtain u' h' c0 where "trigger acfg tk u h = Inr (u', h', c0 @ [SetLed True, SetMotor True])"
       "led_flash_end h' = Some (now tk + flash_duration acfg)"
       "motor_spin_end h' = Some (now tk + spin_duration acfg)"
      by blast
    then show "\<exists>u' h' out. trigger acfg tk u h = Inr (u', h', out)
                \<and> SetLed True \<in> set out \<and> SetMotor True \<in> set out
                \<and> led_flash_end h' = Some (now tk + flash_duration acfg)
                \<and> motor_spin_end h' = Some (now tk + spin_duration acfg)"
      by auto
  qed
  show ?thesis
    using i f p by (intro exI[of _ t]) simp
qed

theorem Tool_init_defaults_witness:
  "\<exists>t. Tool_init ex_acfg 1000 ex_plain_cfg = Inr t
     \<and> \<not> hold t \<and> sounds t = [] \<and> sound_order t = ''random'' \<and> sound_replay t = 0
     \<and> sound_overlap t \<and> descriptions t = [] \<and> light_up t \<and> motor_spin t
     \<and> background t = ''bg.png''
     \<and> (\<forall>fw u tk h. load_content fw t = Inr u \<longrightarrow>
             (\<exists>u' h' out. trigger ex_acfg tk u h = Inr (u', h', out)
                \<and> SetLed True \<in> set out \<and> SetMotor True \<in> set out))"
proof -
  have n: "cfg_name ex_plain_cfg = Some ''rope''" by (simp add: ex_plain_cfg_def)
  from Tool_init_defaults[OF n, of ex_acfg 1000]
  show ?thesis
    by (simp add: ex_plain_cfg_def ex_acfg_def) blast
qed

subsection \<open>C4: the index of the active tool\<close>

text \<open>
  C4. The application constructed from a non-empty tool list starts with the active
  index in range. From a state whose index is in range, \<^verbatim>\<open>next_tool\<close> returns
  and leaves it in range, every update that returns leaves it in range (and every
  update of a well-formed state returns), the number of tools never changes, and
  \<open>N\<close> calls of \<^verbatim>\<open>next_tool\<close> move the index to \<open>(index + N) mod L\<close>: back to
  where it was when \<open>N mod L = 0\<close>.
\<close>

theorem current_tool_in_range:
  "(App_init acfg sim fw tm = Inr s0 \<and> cfg_tools acfg \<noteq> [] \<longrightarrow>
       current_tool s0 < length (tools s0) \<and> length (tools s0) = length (cfg_tools acfg))
   \<and> (current_tool s < length (tools s) \<longrightarrow>
        (\<exists>s' c. next_tool tm s = Inr (s', c) \<and> current_tool s' < length (tools s')
             \<and> length (tools s') = length (tools s))
      \<and> (\<forall>tk s' c. update tk s = Inr (s', c) \<longrightarrow>
             current_tool s' < length (tools s') \<and> length (tools s') = length (tools s))
      \<and> (\<forall>tk. app_ok s \<longrightarrow> (\<exists>s' c. update tk s = Inr (s', c)))
      \<and> (\<exists>s'. next_tool_n s tms = Inr s' \<and> length (tools s') = length (tools s)
             \<and> current_tool s' = (current_tool s + length tms) mod length (tools s)
             \<and> (length tms mod length (tools s) = 0 \<longrightarrow> current_tool s' = current_tool s)))"
proof (intro conjI impI allI)
  assume a: "App_init acfg sim fw tm = Inr s0 \<and> cfg_tools acfg \<noteq> []"
  then obtain ts where t: "init_tools acfg fw tm 0 (cfg_tools acfg) = Inr ts"
     and s0: "tools s0 = ts" "current_tool s0 = 0"
    by (auto simp: App_init_def split: sum.splits)
  show "length (tools s0) = length (cfg_tools acfg)"
    using init_tools_length[OF t] s0 by simp
  then show "current_tool s0 < length (tools s0)" using a s0 by simp
next
  assume i: "current_tool s < length (tools s)"
  then have "0 < length (tools s)" by linarith
  then have "(current_tool s + 1) mod length (tools s) < length (tools s)" by simp
  then show "\<exists>s' c. next_tool tm s = Inr (s', c) \<and> current_tool s' < length (tools s')
             \<and> length (tools s') = length (tools s)"
    using next_tool_ok[OF i, of tm] by auto
next
  fix tk s' c
  assume "current_tool s < length (tools s)" "update tk s = Inr (s', c)"
  then show "current_tool s' < length (tools s')" "length (tools s') = length (tools s)"
    using update_index by blast+
next
  fix tk assume "app_ok s"
  then show "\<exists>s' c. update tk s = Inr (s', c)" using update_total by blast
next
  assume i: "current_tool s < length (tools s)"
  from next_tool_n_index[OF i, of tms]
  obtain s' where r: "next_tool_n s tms = Inr s'" "length (tools s') = length (tools s)"
     "current_tool s' = (current_tool s + length tms) mod length (tools s)"
    by blast
  have "length tms mod length (tools s) = 0 \<longrightarrow> current_tool s' = current_tool s"
  proof
    assume z: "length tms mod length (tools s) = 0"
    have "(current_tool s + length tms) mod length (tools s)
          = (current_tool s + length tms mod length (tools s)) mod length (tools s)"
      by (simp add: mod_add_right_eq)
    then show "current_tool s' = current_tool s" using r(3) z i by simp
  qed
  then show "\<exists>s'. next_tool_n s tms = Inr s' \<and> length (tools s') = length (tools s)
             \<and> current_tool s' = (current_tool s + length tms) mod length (tools s)
             \<and> (length tms mod length (tools s) = 0 \<longrightarrow> current_tool s' = current_tool s)"
    using r by (intro exI[of _ s']) simp
qed

theorem current_tool_in_range_witness:
  "current_tool ex_app < length (tools ex_app) \<and> length (tools ex_app) = 2
   \<and> (\<exists>s' c. update (ex_tick 1000 True) ex_app = Inr (s', c)
         \<and> current_tool s' < length (tools s'))
   \<and> (\<exists>s'. next_tool_n ex_app [1001, 1002, 1003, 1004] = Inr s' \<and> current_tool s' = 0)"
proof -
  note th = current_tool_in_range[where acfg = ex_acfg and sim = True and fw = ex_font
      and tm = 1000 and ?s0.0 = ex_app and s = ex_app and tms = "[1001, 1002, 1003, 1004]"]
  have a: "App_init ex_acfg True ex_font 1000 = Inr ex_app \<and> cfg_tools ex_acfg \<noteq> []"
    using ex_app_init by (simp add: ex_acfg_def)
  from th[THEN conjunct1] a
  have i: "current_tool ex_app < length (tools ex_app)
           \<and> length (tools ex_app) = length (cfg_tools ex_acfg)"
    by (rule mp)
  then have i1: "current_tool ex_app < length (tools ex_app)" by (rule conjunct1)
  have i2: "length (tools ex_app) = 2" by (simp add: ex_app_def)
  note d = th[THEN conjunct2, THEN mp, OF i1]
  from d[THEN conjunct2, THEN conjunct1]
  have d2: "\<And>s' c. update (ex_tick 1000 True) ex_app = Inr (s', c) \<Longrightarrow>
             current_tool s' < length (tools s')"
    by blast
  from d[THEN conjunct2, THEN conjunct2, THEN conjunct1] ex_app_ok
  obtain s' c where u: "update (ex_tick 1000 True) ex_app = Inr (s', c)" by blast
  have r2: "\<exists>s' c. update (ex_tick 1000 True) ex_app = Inr (s', c)
         \<and> current_tool s' < length (tools s')"
    using u d2[OF u] by blast
  from d[THEN conjunct2, THEN conjunct2, THEN conjunct2]
  obtain s'' where full: "next_tool_n ex_app [1001, 1002, 1003, 1004] = Inr s''
      \<and> length (tools s'') = length (tools ex_app)
      \<and> current_tool s'' = (current_tool ex_app + length [1001, 1002, 1003, 1004 :: real])
                               mod length (tools ex_app)
      \<and> (length [1001, 1002, 1003, 1004 :: real] mod length (tools ex_app) = 0
            \<longrightarrow> current_tool s'' = current_tool ex_app)" ..
  note n = full[THEN conjunct1]
  note z = full[THEN conjunct2, THEN conjunct2, THEN conjunct2]
  have l4: "length [1001, 1002, 1003, 1004 :: real] = 4" by simp
  have "length [1001, 1002, 1003, 1004 :: real] mod length (tools ex_app) = 0"
    unfolding l4 i2 by simp
  from z[THEN mp, OF this] have "current_tool s'' = 0" by (simp add: ex_app_def)
  then have r3: "\<exists>s'. next_tool_n ex_app [1001, 1002, 1003, 1004] = Inr s' \<and> current_tool s' = 0"
    using n by (intro exI[of _ s'']) simp
  show ?thesis using i1 i2 r2 r3 by (intro conjI)
qed

subsection \<open>C5: the sleep timer\<close>

text \<open>
  C5. Every update of a well-formed state returns. A tick with a trigger edge (press
  or release) sets the sleep deadline to \<open>now + sleep_timeout\<close> and clears the sleep
  mode whatever it was (waking the screen if it slept), before the sleep check of the
  same tick: after the tick the application sleeps only if \<open>now\<close> is already past the
  new deadline, which a non-negative timeout excludes. A tick without an edge keeps
  the deadline. In both cases the sleep command is issued on this tick exactly when
  \<open>now\<close> is past the deadline and the application was not already asleep, at most once
  per tick; and over any sequence of ticks without an edge it is issued once in all if
  the application was awake and some tick is past the deadline, and never otherwise.
\<close>

theorem sleep_timer_and_dim:
  assumes "app_ok s"
  shows "(\<exists>s' c. update tk s = Inr (s', c)
            \<and> (trigger_down tk \<noteq> button_change s \<longrightarrow>
                 sleep_timer s' = now tk + sleep_timeout (config s)
               \<and> (sleep_mode s' \<longleftrightarrow> now tk > sleep_timer s')
               \<and> (0 \<le> sleep_timeout (config s) \<longrightarrow> \<not> sleep_mode s')
               \<and> (SetSleep True \<in> set c \<longleftrightarrow> now tk > sleep_timer s')
               \<and> (sleep_mode s \<longrightarrow> SetSleep False \<in> set c))
            \<and> (trigger_down tk = button_change s \<longrightarrow>
                 sleep_timer s' = sleep_timer s
               \<and> (sleep_mode s' \<longleftrightarrow> sleep_mode s \<or> now tk > sleep_timer s)
               \<and> (SetSleep True \<in> set c \<longleftrightarrow> now tk > sleep_timer s \<and> \<not> sleep_mode s))
            \<and> dims c \<le> 1)
       \<and> ((\<forall>tk\<in>set tks. trigger_down tk = button_change s) \<longrightarrow>
            (\<exists>s' cs. run s tks = Inr (s', cs)
               \<and> sum_list (map dims cs)
                   = (if \<not> sleep_mode s \<and> (\<exists>tk\<in>set tks. now tk > sleep_timer s)
                      then 1 else 0)))"
proof (intro conjI impI)
  show "\<exists>s' c. update tk s = Inr (s', c)
            \<and> (trigger_down tk \<noteq> button_change s \<longrightarrow>
                 sleep_timer s' = now tk + sleep_timeout (config s)
               \<and> (sleep_mode s' \<longleftrightarrow> now tk > sleep_timer s')
               \<and> (0 \<le> sleep_timeout (config s) \<longrightarrow> \<not> sleep_mode s')
               \<and> (SetSleep True \<in> set c \<longleftrightarrow> now tk > sleep_timer s')
               \<and> (sleep_mode s \<longrightarrow> SetSleep False \<in> set c))
            \<and> (trigger_down tk = button_change s \<longrightarrow>
                 sleep_timer s' = sleep_timer s
               \<and> (sleep_mode s' \<longleftrightarrow> sleep_mode s \<or> now tk > sleep_timer s)
               \<and> (SetSleep True \<in> set c \<longleftrightarrow> now tk > sleep_timer s \<and> \<not> sleep_mode s))
            \<and> dims c \<le> 1"
  proof (cases "trigger_down tk = button_change s")
    case True
    from update_noedge[OF assms True]
    obtain s' c where u: "update tk s = Inr (s', c)"
      and f: "sleep_timer s' = sleep_timer s"
        "sleep_mode s' \<longleftrightarrow> sleep_mode s \<or> now tk > sleep_timer s"
        "dims c = (if now tk > sleep_timer s \<and> \<not> sleep_mode s then 1 else 0)"
      by blast
    show ?thesis
      unfolding u using True f by (simp add: dims_mem)
  next
    case False
    from update_edge[OF assms False]
    obtain s' c where u: "update tk s = Inr (s', c)"
      and f: "sleep_timer s' = now tk + sleep_timeout (config s)"
        "sleep_mode s' \<longleftrightarrow> sleep_timeout (config s) < 0"
        "dims c = (if sleep_timeout (config s) < 0 then 1 else 0)"
        "sleep_mode s \<longrightarrow> SetSleep False \<in> set c"
      by blast
    show ?thesis
      unfolding u using False f by (simp add: dims_mem)
  qed
next
  assume "\<forall>tk\<in>set tks. trigger_down tk = button_change s"
  from no_edge_run_dims[OF assms this]
  show "\<exists>s' cs. run s tks = Inr (s', cs)
               \<and> sum_list (map dims cs)
                   = (if \<not> sleep_mode s \<and> (\<exists>tk\<in>set tks. now tk > sleep_timer s)
                      then 1 else 0)"
    by blast
qed

theorem sleep_timer_and_dim_witness:
  "(\<exists>s' c. update (ex_tick 1002 True) ex_app = Inr (s', c)
       \<and> sleep_timer s' = 1007 \<and> \<not> sleep_mode s' \<and> SetSleep True \<notin> set c)
   \<and> (\<exists>s' c. update (ex_tick 1005.1 False) ex_app = Inr (s', c)
       \<and> sleep_timer s' = 1005 \<and> sleep_mode s' \<and> SetSleep True \<in> set c)
   \<and> (\<exists>s' cs. run ex_app ex_idle_ticks = Inr (s', cs) \<and> sum_list (map dims cs) = 1)"
proof -
  note t1 = sleep_timer_and_dim[OF ex_app_ok, of "ex_tick 1002 True" "[]", THEN conjunct1]
  note t2 = sleep_timer_and_dim[OF ex_app_ok, of "ex_tick 1005.1 False" ex_idle_ticks]
  from t1 obtain s1 c1 where u1: "update (ex_tick 1002 True) ex_app = Inr (s1, c1)"
    and f1: "trigger_down (ex_tick 1002 True) \<noteq> button_change ex_app \<longrightarrow>
                 sleep_timer s1 = now (ex_tick 1002 True) + sleep_timeout (config ex_app)
               \<and> (sleep_mode s1 \<longleftrightarrow> now (ex_tick 1002 True) > sleep_timer s1)
               \<and> (0 \<le> sleep_timeout (config ex_app) \<longrightarrow> \<not> sleep_mode s1)
               \<and> (SetSleep True \<in> set c1 \<longleftrightarrow> now (ex_tick 1002 True) > sleep_timer s1)
               \<and> (sleep_mode ex_app \<longrightarrow> SetSleep False \<in> set c1)"
    by (elim exE conjE)
  have a: "\<exists>s' c. update (ex_tick 1002 True) ex_app = Inr (s', c)
       \<and> sleep_timer s' = 1007 \<and> \<not> sleep_mode s' \<and> SetSleep True \<notin> set c"
    using u1 f1 by (intro exI[of _ s1] exI[of _ c1]) (simp add: ex_app_def ex_tick_def ex_acfg_def)
  from t2[THEN conjunct1]
  obtain s2 c2 where u2: "update (ex_tick 1005.1 False) ex_app = Inr (s2, c2)"
    and f2: "trigger_down (ex_tick 1005.1 False) = button_change ex_app \<longrightarrow>
                 sleep_timer s2 = sleep_timer ex_app
               \<and> (sleep_mode s2 \<longleftrightarrow> sleep_mode ex_app \<or> now (ex_tick 1005.1 False) > sleep_timer ex_app)
               \<and> (SetSleep True \<in> set c2 \<longleftrightarrow> now (ex_tick 1005.1 False) > sleep_timer ex_app \<and> \<not> sleep_mode ex_app)"
    by (elim exE conjE)
  have b: "\<exists>s' c. update (ex_tick 1005.1 False) ex_app = Inr (s', c)
       \<and> sleep_timer s' = 1005 \<and> sleep_mode s' \<and> SetSleep True \<in> set c"
    using u2 f2 by (intro exI[of _ s2] exI[of _ c2]) (simp add: ex_app_def ex_tick_def)
  have h: "\<forall>tk\<in>set ex_idle_ticks. trigger_down tk = button_change ex_app"
    by (simp add: ex_idle_ticks_def ex_tick_def ex_app_def)
  from t2[THEN conjunct2, THEN mp, OF h]
  have c: "\<exists>s' cs. run ex_app ex_idle_ticks = Inr (s', cs) \<and> sum_list (map dims cs) = 1"
    by (simp add: ex_idle_ticks_def ex_tick_def ex_app_def)
  show ?thesis using a b c by (intro conjI)
qed

subsection \<open>C6: one switch for each timeout while held\<close>

text \<open>
  C6. While the trigger stays down (no edge), a tick performs at most one tool switch;
  a switch happens only when \<open>now > trigger_hold + tool_change_timeout\<close> and stamps
  \<open>trigger_hold\<close> with \<open>now\<close>, a tick without a switch keeps \<open>trigger_hold\<close>; over a
  tool with \<open>hold = False\<close> the switch happens exactly when that condition holds. So
  between two successive switches of one hold more than \<open>tool_change_timeout\<close> passes.
\<close>

theorem held_switch_once_per_timeout:
  assumes "app_ok s" and "button_change s" and "\<forall>tk\<in>set tks. trigger_down tk"
  shows "(\<forall>tk. trigger_down tk \<longrightarrow>
           (\<exists>s1 c h. update tk s = Inr (s1, c) \<and> trigger_hold s = Some h \<and> switches c \<le> 1
              \<and> (switches c = 1 \<longrightarrow>
                    now tk > h + tool_change_timeout (config s)
                    \<and> trigger_hold s1 = Some (now tk))
              \<and> (switches c = 0 \<longrightarrow> trigger_hold s1 = Some h)
              \<and> (\<not> hold (tools s ! current_tool s) \<longrightarrow>
                    (switches c = 1 \<longleftrightarrow> now tk > h + tool_change_timeout (config s)))))
       \<and> (\<exists>s' cs. run s tks = Inr (s', cs) \<and> length cs = length tks
             \<and> (\<forall>c\<in>set cs. switches c \<le> 1)
             \<and> (\<forall>i j. i < j \<and> j < length tks
                    \<and> switches (cs ! i) = 1 \<and> switches (cs ! j) = 1
                    \<and> (\<forall>k. i < k \<and> k < j \<longrightarrow> switches (cs ! k) = 0)
                  \<longrightarrow> now (tks ! j) > now (tks ! i) + tool_change_timeout (config s)))"
proof (intro conjI allI impI)
  fix tk :: tick assume dn: "trigger_down tk"
  obtain h l where th: "trigger_hold s = Some h" and lt: "last_trigger s = Some l"
    using assms(1,2) by (auto simp: app_ok_def)
  from update_held[OF assms(1) dn assms(2) th lt]
  obtain s1 c where u: "update tk s = Inr (s1, c)"
    and sw: "(if now tk > h + tool_change_timeout (config s)
            \<and> (hold (tools s ! current_tool s) \<and> \<not> was_changing_tool s
                 \<longrightarrow> now tk - l < 0.5 + tool_change_timeout (config s))
         then switches c = 1 \<and> trigger_hold s1 = Some (now tk) \<and> was_changing_tool s1
              \<and> current_tool s1 = (current_tool s + 1) mod length (tools s)
         else switches c = 0 \<and> trigger_hold s1 = Some h
              \<and> was_changing_tool s1 = was_changing_tool s
              \<and> current_tool s1 = current_tool s)"
    by blast
  show "\<exists>s1 c h. update tk s = Inr (s1, c) \<and> trigger_hold s = Some h \<and> switches c \<le> 1
              \<and> (switches c = 1 \<longrightarrow>
                    now tk > h + tool_change_timeout (config s)
                    \<and> trigger_hold s1 = Some (now tk))
              \<and> (switches c = 0 \<longrightarrow> trigger_hold s1 = Some h)
              \<and> (\<not> hold (tools s ! current_tool s) \<longrightarrow>
                    (switches c = 1 \<longleftrightarrow> now tk > h + tool_change_timeout (config s)))"
    using u th sw
    by (intro exI[of _ s1] exI[of _ c] exI[of _ h]) (auto split: if_splits)
next
  from run_total[OF assms(1), of tks]
  obtain s' cs where r: "run s tks = Inr (s', cs)" and l: "length cs = length tks"
    and b: "\<forall>c\<in>set cs. switches c \<le> 1 \<and> dims c \<le> 1"
    by blast
  have g: "\<forall>i j. i < j \<and> j < length tks
                    \<and> switches (cs ! i) = 1 \<and> switches (cs ! j) = 1
                    \<and> (\<forall>k. i < k \<and> k < j \<longrightarrow> switches (cs ! k) = 0)
                  \<longrightarrow> now (tks ! j) > now (tks ! i) + tool_change_timeout (config s)"
  proof (intro allI impI)
    fix i j
    assume a: "i < j \<and> j < length tks
                    \<and> switches (cs ! i) = 1 \<and> switches (cs ! j) = 1
                    \<and> (\<forall>k. i < k \<and> k < j \<longrightarrow> switches (cs ! k) = 0)"
    show "now (tks ! j) > now (tks ! i) + tool_change_timeout (config s)"
    proof (rule held_gap[OF assms(1,2,3) r])
      show "i < j" "j < length tks" using a by simp_all
      show "switches (cs ! i) \<noteq> 0" "switches (cs ! j) \<noteq> 0" using a by simp_all
      show "\<forall>k. i < k \<and> k < j \<longrightarrow> switches (cs ! k) = 0" using a by simp
    qed
  qed
  show "\<exists>s' cs. run s tks = Inr (s', cs) \<and> length cs = length tks
             \<and> (\<forall>c\<in>set cs. switches c \<le> 1)
             \<and> (\<forall>i j. i < j \<and> j < length tks
                    \<and> switches (cs ! i) = 1 \<and> switches (cs ! j) = 1
                    \<and> (\<forall>k. i < k \<and> k < j \<longrightarrow> switches (cs ! k) = 0)
                  \<longrightarrow> now (tks ! j) > now (tks ! i) + tool_change_timeout (config s))"
    using r l b g by (intro exI[of _ s'] exI[of _ cs]) simp
qed

theorem held_switch_once_per_timeout_witness:
  "switch_counts (run ex_plain_held_app ex_held_ticks) = Some [0, 1, 0, 1, 0]
   \<and> now (ex_held_ticks ! 3) > now (ex_held_ticks ! 1) + tool_change_timeout (config ex_plain_held_app)
   \<and> (\<exists>s1 c. update (ex_tick 1001.1 True) ex_plain_held_app = Inr (s1, c)
         \<and> switches c = 1 \<and> trigger_hold s1 = Some 1001.1)"
proof -
  have h: "\<forall>tk\<in>set ex_held_ticks. trigger_down tk"
    by (simp add: ex_held_ticks_def ex_tick_def)
  have bc: "button_change ex_plain_held_app" by (simp add: ex_plain_held_app_def)
  note th = held_switch_once_per_timeout[OF ex_plain_held_app_ok bc h]
  from th[THEN conjunct2]
  obtain s' cs where r: "run ex_plain_held_app ex_held_ticks = Inr (s', cs)"
    and g: "\<forall>i j. i < j \<and> j < length ex_held_ticks
                    \<and> switches (cs ! i) = 1 \<and> switches (cs ! j) = 1
                    \<and> (\<forall>k. i < k \<and> k < j \<longrightarrow> switches (cs ! k) = 0)
                  \<longrightarrow> now (ex_held_ticks ! j) > now (ex_held_ticks ! i)
                        + tool_change_timeout (config ex_plain_held_app)"
    by (elim exE conjE)
  have m: "map switches cs = [0, 1, 0, 1, 0]"
    using ex_held_run r by (simp add: switch_counts_def)
  have l: "length cs = 5" using arg_cong[OF m, of length] by simp
  have e: "switches (cs ! k) = [0, 1, 0, 1, 0] ! k" if "k < 5" for k
    using nth_map[of k cs switches] that l m by simp
  have e1: "switches (cs ! 1) = 1" using e[of 1] by simp
  have e3: "switches (cs ! 3) = 1" using e[of 3] by simp
  have e2: "\<forall>k. 1 < k \<and> k < 3 \<longrightarrow> switches (cs ! k) = 0"
  proof (intro allI impI)
    fix k :: nat assume "1 < k \<and> k < 3"
    then have "k = 2" by linarith
    then show "switches (cs ! k) = 0" using e[of 2] by simp
  qed
  have l5: "length ex_held_ticks = 5" by (simp add: ex_held_ticks_def)
  have gap: "now (ex_held_ticks ! 3) > now (ex_held_ticks ! 1)
                + tool_change_timeout (config ex_plain_held_app)"
    using g[THEN spec, of 1, THEN spec, of 3] e1 e3 e2 l5 by simp
  from th[THEN conjunct1, THEN spec, of "ex_tick 1001.1 True"]
  obtain s1 c h0 where u: "update (ex_tick 1001.1 True) ex_plain_held_app = Inr (s1, c)"
    and th0: "trigger_hold ex_plain_held_app = Some h0"
    and f: "switches c = 1 \<longrightarrow>
              now (ex_tick 1001.1 True) > h0 + tool_change_timeout (config ex_plain_held_app)
              \<and> trigger_hold s1 = Some (now (ex_tick 1001.1 True))"
    and q: "\<not> hold (tools ex_plain_held_app ! current_tool ex_plain_held_app) \<longrightarrow>
              (switches c = 1 \<longleftrightarrow>
                 now (ex_tick 1001.1 True) > h0 + tool_change_timeout (config ex_plain_held_app))"
    by (auto simp: ex_tick_def)
  have "switches c = 1"
    using q th0 by (simp add: ex_plain_held_app_def ex_defs)
  then have upd: "\<exists>s1 c. update (ex_tick 1001.1 True) ex_plain_held_app = Inr (s1, c)
         \<and> switches c = 1 \<and> trigger_hold s1 = Some 1001.1"
    using u f by (intro exI[of _ s1] exI[of _ c]) (simp add: ex_tick_def)
  show ?thesis using ex_held_run gap upd by (intro conjI)
qed

subsection \<open>C3: switching tools by holding a holding tool\<close>

text \<open>
  C3, as the code has it. Let a tool with \<open>hold = True\<close> be active, the trigger down
  since \<open>h\<close> with no tool switch yet, and \<open>l\<close> the value of \<^verbatim>\<open>_last_trigger\<close> (the
  start of the previous press), with the timeout \<open>T\<close>. While the trigger stays down:
  if every tick is either not past \<open>h + T\<close> or at least \<open>0.5 + T\<close> after \<open>l\<close>, no
  switch happens at all; if the first tick \<open>a\<close> past \<open>h + T\<close> is less than \<open>0.5 + T\<close>
  after \<open>l\<close>, the first switch happens at \<open>a\<close> and the second at the first later tick
  \<open>b\<close> more than \<open>T\<close> after \<open>a\<close>, whatever \<open>l\<close> is then, with no switch in between.
\<close>

theorem hold_switch_window:
  assumes ok: "app_ok s" and bc: "button_change s"
    and th: "trigger_hold s = Some h" and lt: "last_trigger s = Some l"
    and hd: "hold (tools s ! current_tool s)" and wc: "\<not> was_changing_tool s"
  shows "((\<forall>tk\<in>set tks. trigger_down tk
             \<and> (now tk \<le> h + tool_change_timeout (config s)
                  \<or> 0.5 + tool_change_timeout (config s) \<le> now tk - l)) \<longrightarrow>
          (\<exists>s' cs. run s tks = Inr (s', cs) \<and> map switches cs = replicate (length tks) 0))
       \<and> ((\<forall>tk\<in>set pre. trigger_down tk \<and> now tk \<le> h + tool_change_timeout (config s))
           \<and> trigger_down a \<and> now a > h + tool_change_timeout (config s)
           \<and> now a - l < 0.5 + tool_change_timeout (config s)
           \<and> (\<forall>tk\<in>set mid. trigger_down tk \<and> now tk \<le> now a + tool_change_timeout (config s))
           \<and> trigger_down b \<and> now b > now a + tool_change_timeout (config s) \<longrightarrow>
          (\<exists>s' cs cpost. run s (pre @ [a] @ mid @ [b] @ post) = Inr (s', cs)
             \<and> map switches cs
                 = replicate (length pre) 0 @ [1] @ replicate (length mid) 0 @ [1] @ cpost
             \<and> length cpost = length post))"
proof (intro conjI impI)
  let ?T = "tool_change_timeout (config s)"
  assume a: "\<forall>tk\<in>set tks. trigger_down tk \<and> (now tk \<le> h + ?T \<or> 0.5 + ?T \<le> now tk - l)"
  have q: "\<forall>tk\<in>set tks. trigger_down tk
           \<and> \<not> (now tk > h + ?T
                \<and> (hold (tools s ! current_tool s) \<and> \<not> was_changing_tool s
                      \<longrightarrow> now tk - l < 0.5 + ?T))"
    using a hd wc by auto
  from held_run_quiet[OF ok bc th lt q]
  show "\<exists>s' cs. run s tks = Inr (s', cs) \<and> map switches cs = replicate (length tks) 0"
    by blast
next
  let ?T = "tool_change_timeout (config s)"
  assume a: "(\<forall>tk\<in>set pre. trigger_down tk \<and> now tk \<le> h + ?T)
           \<and> trigger_down a \<and> now a > h + ?T
           \<and> now a - l < 0.5 + ?T
           \<and> (\<forall>tk\<in>set mid. trigger_down tk \<and> now tk \<le> now a + ?T)
           \<and> trigger_down b \<and> now b > now a + ?T"
  \<comment> \<open>the ticks before the timeout: no switch, the state of the hold is kept\<close>
  have q1: "\<forall>tk\<in>set pre. trigger_down tk
           \<and> \<not> (now tk > h + ?T
                \<and> (hold (tools s ! current_tool s) \<and> \<not> was_changing_tool s
                      \<longrightarrow> now tk - l < 0.5 + ?T))"
    using a by auto
  from held_run_quiet[OF ok bc th lt q1]
  obtain s1 cs1 where r1: "run s pre = Inr (s1, cs1)" and ok1: "app_ok s1"
    and f1: "button_change s1" "trigger_hold s1 = Some h" "last_trigger s1 = Some l"
      "config s1 = config s" "was_changing_tool s1 = was_changing_tool s"
      "current_tool s1 = current_tool s" "map hold (tools s1) = map hold (tools s)"
    and m1: "map switches cs1 = replicate (length pre) 0"
    by blast
  have cur: "current_tool s < length (tools s)" using ok by (simp add: app_ok_def)
  have cur1: "current_tool s1 < length (tools s1)" using ok1 by (simp add: app_ok_def)
  have hd1: "hold (tools s1 ! current_tool s1)"
    using hold_current[OF cur] hold_current[OF cur1] f1(6,7) hd by simp
  \<comment> \<open>the first tick past the timeout, inside the window: the first switch\<close>
  have dna: "trigger_down a" using a by simp
  from update_held[OF ok1 dna f1(1,2,3)]
  obtain s2 c2 where u2: "update a s1 = Inr (s2, c2)" and ok2: "app_ok s2"
    and f2: "button_change s2" "last_trigger s2 = Some l" "config s2 = config s1"
    and sw2: "(if now a > h + tool_change_timeout (config s1)
            \<and> (hold (tools s1 ! current_tool s1) \<and> \<not> was_changing_tool s1
                 \<longrightarrow> now a - l < 0.5 + tool_change_timeout (config s1))
         then switches c2 = 1 \<and> trigger_hold s2 = Some (now a) \<and> was_changing_tool s2
              \<and> current_tool s2 = (current_tool s1 + 1) mod length (tools s1)
         else switches c2 = 0 \<and> trigger_hold s2 = Some h
              \<and> was_changing_tool s2 = was_changing_tool s1
              \<and> current_tool s2 = current_tool s1)"
    by blast
  have g2: "switches c2 = 1" "trigger_hold s2 = Some (now a)" "was_changing_tool s2"
    using sw2 a f1(4) by simp_all
  \<comment> \<open>until a further timeout has passed: no switch\<close>
  have q3: "\<forall>tk\<in>set mid. trigger_down tk
           \<and> \<not> (now tk > now a + tool_change_timeout (config s2)
                \<and> (hold (tools s2 ! current_tool s2) \<and> \<not> was_changing_tool s2
                      \<longrightarrow> now tk - l < 0.5 + tool_change_timeout (config s2)))"
    using a f2(3) f1(4) by auto
  from held_run_quiet[OF ok2 f2(1) g2(2) f2(2) q3]
  obtain s3 cs3 where r3: "run s2 mid = Inr (s3, cs3)" and ok3: "app_ok s3"
    and f3: "button_change s3" "trigger_hold s3 = Some (now a)" "last_trigger s3 = Some l"
      "config s3 = config s2" "was_changing_tool s3 = was_changing_tool s2"
    and m3: "map switches cs3 = replicate (length mid) 0"
    by blast
  \<comment> \<open>the first tick a timeout after the first switch: the second switch\<close>
  have dnb: "trigger_down b" using a by simp
  from update_held[OF ok3 dnb f3(1,2,3)]
  obtain s4 c4 where u4: "update b s3 = Inr (s4, c4)" and ok4: "app_ok s4"
    and sw4: "(if now b > now a + tool_change_timeout (config s3)
            \<and> (hold (tools s3 ! current_tool s3) \<and> \<not> was_changing_tool s3
                 \<longrightarrow> now b - l < 0.5 + tool_change_timeout (config s3))
         then switches c4 = 1 \<and> trigger_hold s4 = Some (now b) \<and> was_changing_tool s4
              \<and> current_tool s4 = (current_tool s3 + 1) mod length (tools s3)
         else switches c4 = 0 \<and> trigger_hold s4 = Some (now a)
              \<and> was_changing_tool s4 = was_changing_tool s3
              \<and> current_tool s4 = current_tool s3)"
    by blast
  have g4: "switches c4 = 1"
    using sw4 a f3(4,5) f2(3) f1(4) g2(3) by simp
  \<comment> \<open>the rest of the run\<close>
  from run_total[OF ok4, of post]
  obtain s5 cs5 where r5: "run s4 post = Inr (s5, cs5)" and l5: "length cs5 = length post"
    by blast
  have r45: "run s3 ([b] @ post) = Inr (s5, c4 # cs5)"
    using run_Cons_Inr[OF u4 r5] by simp
  have r35: "run s2 (mid @ [b] @ post) = Inr (s5, cs3 @ c4 # cs5)"
    using run_append_Inr[OF r3 r45] .
  have r25: "run s1 ([a] @ mid @ [b] @ post) = Inr (s5, c2 # cs3 @ c4 # cs5)"
    using run_Cons_Inr[OF u2 r35] by simp
  have r15: "run s (pre @ [a] @ mid @ [b] @ post) = Inr (s5, cs1 @ c2 # cs3 @ c4 # cs5)"
    using run_append_Inr[OF r1 r25] .
  have m: "map switches (cs1 @ c2 # cs3 @ c4 # cs5)
           = replicate (length pre) 0 @ [1] @ replicate (length mid) 0 @ [1] @ map switches cs5"
    using m1 m3 g2(1) g4 by simp
  show "\<exists>s' cs cpost. run s (pre @ [a] @ mid @ [b] @ post) = Inr (s', cs)
             \<and> map switches cs
                 = replicate (length pre) 0 @ [1] @ replicate (length mid) 0 @ [1] @ cpost
             \<and> length cpost = length post"
    using r15 m l5
    by (intro exI[of _ s5] exI[of _ "cs1 @ c2 # cs3 @ c4 # cs5"] exI[of _ "map switches cs5"])
       simp
qed

theorem hold_switch_window_witness:
  "(\<exists>s' cs. run ex_held_app [ex_tick 1001.6 True, ex_tick 1002.6 True] = Inr (s', cs)
        \<and> map switches cs = [0, 0])
   \<and> (\<exists>s' cs cpost. run ex_tapped_app ex_tap_hold = Inr (s', cs)
        \<and> map switches cs = [0, 1, 0, 1] @ cpost \<and> length cpost = 1)"
proof -
  have p: "button_change ex_held_app" "trigger_hold ex_held_app = Some 1000"
    "last_trigger ex_held_app = Some 0"
    "hold (tools ex_held_app ! current_tool ex_held_app)" "\<not> was_changing_tool ex_held_app"
    by (simp_all add: ex_held_app_def ex_app_def ex_hold_tool_def)
  note t1 = hold_switch_window[OF ex_held_app_ok p,
      where tks = "[ex_tick 1001.6 True, ex_tick 1002.6 True]", THEN conjunct1]
  have a: "\<exists>s' cs. run ex_held_app [ex_tick 1001.6 True, ex_tick 1002.6 True] = Inr (s', cs)
        \<and> map switches cs = [0, 0]"
    using t1 by (simp add: ex_tick_def ex_held_app_def ex_app_def ex_acfg_def numeral_2_eq_2)
  have q: "button_change ex_tapped_app" "trigger_hold ex_tapped_app = Some 1000.2"
    "last_trigger ex_tapped_app = Some 1000"
    "hold (tools ex_tapped_app ! current_tool ex_tapped_app)"
    "\<not> was_changing_tool ex_tapped_app"
    by (simp_all add: ex_tapped_app_def ex_app_def ex_hold_tool_def)
  note t2 = hold_switch_window[OF ex_tapped_app_ok q,
      where pre = "[ex_tick 1000.5 True]" and a = "ex_tick 1001.3 True"
        and mid = "[ex_tick 1001.5 True]" and b = "ex_tick 1002.4 True"
        and post = "[ex_tick 1002.5 True]", THEN conjunct2]
  have b: "\<exists>s' cs cpost. run ex_tapped_app ex_tap_hold = Inr (s', cs)
        \<and> map switches cs = [0, 1, 0, 1] @ cpost \<and> length cpost = 1"
    using t2 unfolding ex_tap_hold_def
    by (simp add: ex_tick_def ex_tapped_app_def ex_app_def ex_acfg_def)
  show ?thesis using a b by (intro conjI)
qed

text \<open>
  The first hold after start-up (\<^verbatim>\<open>_last_trigger\<close> is still 0), with the timeout
  1 and a holding tool, held from 1000 to 1002.5: no switch on any tick.
\<close>

theorem hold_switch_counterexample:
  "tool_change_timeout ex_acfg = 1 \<and> cfg_hold ex_hold_cfg = Some True
   \<and> switch_counts (main ex_acfg True ex_font 1000 ex_cold_hold) = Some [0, 0, 0, 0, 0, 0]"
proof -
  have "main ex_acfg True ex_font 1000 ex_cold_hold = run ex_app ex_cold_hold"
    by (simp add: main_def ex_app_init)
  moreover have "switch_counts (run ex_app ex_cold_hold) = Some [0, 0, 0, 0, 0, 0]"
    by (simp add: switch_counts_def ex_cold_hold_def ex_defs op_defs switches_def)
  ultimately show ?thesis by (simp add: ex_acfg_def ex_hold_cfg_def)
qed

subsection \<open>C9: only loaded tools are rendered\<close>

text \<open>
  C9. \<^verbatim>\<open>Tool.render\<close> on a tool whose content is not loaded fails its assertion.
  \<^verbatim>\<open>App.__init__\<close> builds one tool for each configured tool and loads exactly those
  at positions below \<open>MAX_TOOLS = 60\<close>. With at most 60 configured tools no sequence
  of ticks ends in the assertion error and every tool stays loaded; if there is at
  least one tool, every sequence of ticks returns, and after any number of calls of
  \<^verbatim>\<open>next_tool\<close> the active tool is a loaded one.
\<close>

theorem render_needs_loaded:
  "MAX_TOOLS = 60
   \<and> (\<not> loaded t \<longrightarrow> render tm F t = Inl AssertionError)
   \<and> (App_init acfg sim fw tm0 = Inr s \<longrightarrow>
        length (tools s) = length (cfg_tools acfg)
        \<and> (\<forall>k<length (tools s). loaded (tools s ! k) \<longleftrightarrow> k < MAX_TOOLS)
        \<and> (length (cfg_tools acfg) \<le> MAX_TOOLS \<longrightarrow>
             run s tks \<noteq> Inl AssertionError
             \<and> (\<forall>s' cs. run s tks = Inr (s', cs) \<longrightarrow> list_all loaded (tools s'))
             \<and> (cfg_tools acfg \<noteq> [] \<longrightarrow>
                  (\<exists>s' cs. run s tks = Inr (s', cs))
                  \<and> (\<exists>s'. next_tool_n s tms = Inr s'
                         \<and> loaded (tools s' ! current_tool s')))))"
proof (intro conjI impI)
  show "MAX_TOOLS = 60" by (simp add: MAX_TOOLS_def)
next
  assume "\<not> loaded t"
  then show "render tm F t = Inl AssertionError" by (rule render_unloaded)
next
  assume a: "App_init acfg sim fw tm0 = Inr s"
  show "length (tools s) = length (cfg_tools acfg)" using App_init_tools[OF a] by simp
  show "\<forall>k<length (tools s). loaded (tools s ! k) \<longleftrightarrow> k < MAX_TOOLS"
    using App_init_tools[OF a] by simp
next
  assume a: "App_init acfg sim fw tm0 = Inr s" and b: "length (cfg_tools acfg) \<le> MAX_TOOLS"
  show "run s tks \<noteq> Inl AssertionError"
  proof (cases "cfg_tools acfg = []")
    case True
    then have "tools s = []" using App_init_tools[OF a] by simp
    from run_no_tools[OF this, of tks] show ?thesis by auto
  next
    case False
    from run_total[OF App_init_ok[OF a False b], of tks] show ?thesis by auto
  qed
  show "\<forall>s' cs. run s tks = Inr (s', cs) \<longrightarrow> list_all loaded (tools s')"
  proof (cases "cfg_tools acfg = []")
    case True
    then have "tools s = []" using App_init_tools[OF a] by simp
    from run_no_tools[OF this, of tks] show ?thesis by auto
  next
    case False
    from run_total[OF App_init_ok[OF a False b], of tks] show ?thesis
      by (auto dest: app_ok_loaded)
  qed
next
  assume a: "App_init acfg sim fw tm0 = Inr s" and b: "length (cfg_tools acfg) \<le> MAX_TOOLS"
    and c: "cfg_tools acfg \<noteq> []"
  from run_total[OF App_init_ok[OF a c b], of tks]
  show "\<exists>s' cs. run s tks = Inr (s', cs)" by blast
  from next_tool_n_ok[OF App_init_ok[OF a c b], of tms]
  obtain s' where n: "next_tool_n s tms = Inr s'" and ok: "app_ok s'" by blast
  have "loaded (tools s' ! current_tool s')"
    using ok by (simp add: app_ok_def list_all_length tool_ok_def)
  then show "\<exists>s'. next_tool_n s tms = Inr s' \<and> loaded (tools s' ! current_tool s')"
    using n by blast
qed

theorem render_needs_loaded_witness:
  "render 1000 240 ex_unloaded_tool = Inl AssertionError
   \<and> length (tools ex_app) = 2
   \<and> loaded (tools ex_app ! 0) \<and> loaded (tools ex_app ! 1)
   \<and> (\<exists>s' cs. run ex_app ex_cold_hold = Inr (s', cs))
   \<and> (\<exists>s'. next_tool_n ex_app [1001, 1002, 1003] = Inr s'
          \<and> loaded (tools s' ! current_tool s'))"
proof -
  note th = render_needs_loaded[where t = ex_unloaded_tool and tm = 1000 and F = 240
      and acfg = ex_acfg and sim = True and fw = ex_font and ?tm0.0 = 1000 and s = ex_app
      and tks = ex_cold_hold and tms = "[1001, 1002, 1003]"]
  have u: "\<not> loaded ex_unloaded_tool" by (simp add: ex_unloaded_tool_def)
  have r: "render 1000 240 ex_unloaded_tool = Inl AssertionError"
    using th[THEN conjunct2, THEN conjunct1] u by (rule mp)
  note i = th[THEN conjunct2, THEN conjunct2, THEN mp, OF ex_app_init]
  have l: "length (tools ex_app) = 2" using i[THEN conjunct1] by (simp add: ex_acfg_def)
  have ld: "loaded (tools ex_app ! 0) \<and> loaded (tools ex_app ! 1)"
    using i[THEN conjunct2, THEN conjunct1] l by (simp add: MAX_TOOLS_def)
  have b: "length (cfg_tools ex_acfg) \<le> MAX_TOOLS" by (simp add: ex_acfg_def MAX_TOOLS_def)
  have c: "cfg_tools ex_acfg \<noteq> []" by (simp add: ex_acfg_def)
  note j = i[THEN conjunct2, THEN conjunct2, THEN mp, OF b, THEN conjunct2, THEN conjunct2,
             THEN mp, OF c]
  show ?thesis using r l ld j by (intro conjI) simp_all
qed

end
